theory Spec2Isabelle
  imports Main "HOL-Library.Word"
begin

section \<open>JavaScript strings\<close>

text \<open>
  A JavaScript string is a sequence of 16-bit UTF-16 code units; \<open>indexOf\<close>,
  \<open>substring\<close>, \<open>trim\<close>, the regular expression of the source and \<open>JSON.parse\<close> all
  work on code units. Literals of the source are written \<open>js ''...''\<close>.
\<close>

type_synonym cu = "16 word"
type_synonym jsstring = "cu list"

definition cu :: "char \<Rightarrow> cu" where
  "cu c = of_nat (of_char c)"

definition js :: "string \<Rightarrow> jsstring" where
  "js s = map cu s"

fun strip_prefix :: "'a list \<Rightarrow> 'a list \<Rightarrow> 'a list option" where
  "strip_prefix [] s = Some s"
| "strip_prefix (p # ps) [] = None"
| "strip_prefix (p # ps) (c # cs) = (if p = c then strip_prefix ps cs else None)"

text \<open>
  \<open>String.prototype.indexOf\<close> and \<open>lastIndexOf\<close> for a one-character search string
  (the source searches for \<open>"{"\<close> and \<open>"}"\<close>): the position of the first (last)
  occurrence, or \<open>-1\<close>.
\<close>

definition indexOf :: "jsstring \<Rightarrow> cu \<Rightarrow> int" where
  "indexOf s c = (if c \<in> set s then int (length (takeWhile (\<lambda>x. x \<noteq> c) s)) else - 1)"

definition lastIndexOf :: "jsstring \<Rightarrow> cu \<Rightarrow> int" where
  "lastIndexOf s c =
     (if c \<in> set s then int (length s) - 1 - int (length (takeWhile (\<lambda>x. x \<noteq> c) (rev s)))
      else - 1)"

text \<open>
  \<open>String.prototype.substring(indexStart, indexEnd)\<close>: both arguments are clamped to
  \<open>[0, length]\<close>, and they are swapped when the first exceeds the second.
\<close>

definition substring :: "jsstring \<Rightarrow> int \<Rightarrow> int \<Rightarrow> jsstring" where
  "substring s indexStart indexEnd =
     (let len = int (length s);
          finalStart = min (max indexStart 0) len;
          finalEnd = min (max indexEnd 0) len;
          from = min finalStart finalEnd;
          to = max finalStart finalEnd
      in take (nat (to - from)) (drop (nat from) s))"

text \<open>
  \<open>String.prototype.trim\<close> removes the ECMAScript WhiteSpace and LineTerminator code
  units from both ends.
\<close>

definition is_js_space :: "cu \<Rightarrow> bool" where
  "is_js_space c \<longleftrightarrow>
     c \<in> {0x0009, 0x000A, 0x000B, 0x000C, 0x000D, 0x0020, 0x00A0, 0x1680,
          0x2028, 0x2029, 0x202F, 0x205F, 0x3000, 0xFEFF}
     \<or> (0x2000 \<le> c \<and> c \<le> 0x200A)"

definition trim :: "jsstring \<Rightarrow> jsstring" where
  "trim s = rev (dropWhile is_js_space (rev (dropWhile is_js_space s)))"

text \<open>
  \<open>text.replace(/```json|```/g, "")\<close>: the global replace scans from the left; at each
  position it tries the alternatives in order, deletes a match and goes on after it,
  and otherwise keeps the code unit.
\<close>

function removeFences :: "jsstring \<Rightarrow> jsstring" where
  "removeFences [] = []"
| "removeFences (c # cs) =
     (case strip_prefix (js ''```json'') (c # cs) of
        Some rest \<Rightarrow> removeFences rest
      | None \<Rightarrow>
          (case strip_prefix (js ''```'') (c # cs) of
             Some rest \<Rightarrow> removeFences rest
           | None \<Rightarrow> c # removeFences cs))"
  by pat_completeness auto

lemma strip_prefix_length:
  "strip_prefix p s = Some r \<Longrightarrow> length s = length p + length r"
  by (induction p s rule: strip_prefix.induct) (auto split: if_splits)

lemma strip_prefix_shorter:
  "strip_prefix (p # ps) s = Some r \<Longrightarrow> length r < length s"
  by (drule strip_prefix_length) simp

termination removeFences
  by (relation "measure length")
     (auto simp: js_def dest: strip_prefix_shorter simp del: strip_prefix.simps)

text \<open>The same function in the form used for evaluation: only a backquote starts a match.\<close>

lemma removeFences_code [code]:
  "removeFences [] = []"
  "removeFences (c # cs) =
     (if c = cu CHR 0x60 then
        (case strip_prefix (js ''```json'') (c # cs) of
           Some rest \<Rightarrow> removeFences rest
         | None \<Rightarrow>
             (case strip_prefix (js ''```'') (c # cs) of
                Some rest \<Rightarrow> removeFences rest
              | None \<Rightarrow> c # removeFences cs))
      else c # removeFences cs)"
  by (simp_all add: js_def)

section \<open>JSON values and \<open>JSON.parse\<close>\<close>

text \<open>
  The values \<open>JSON.parse\<close> can return. A number is kept as the exact decimal value of
  its literal, \<open>(-1)^neg * mantissa * 10^exponent\<close>; an object is the list of its
  properties in creation order.
\<close>

datatype json =
    JNull
  | JBool bool
  | JNumber bool nat int
  | JString jsstring
  | JArray "json list"
  | JObject "(jsstring \<times> json) list"

definition is_json_ws :: "cu \<Rightarrow> bool" where
  "is_json_ws c \<longleftrightarrow> c = 0x20 \<or> c = 0x09 \<or> c = 0x0A \<or> c = 0x0D"

definition skip_ws :: "jsstring \<Rightarrow> jsstring" where
  "skip_ws s = dropWhile is_json_ws s"

definition is_digit :: "cu \<Rightarrow> bool" where
  "is_digit c \<longleftrightarrow> cu CHR ''0'' \<le> c \<and> c \<le> cu CHR ''9''"

definition digits_value :: "jsstring \<Rightarrow> nat" where
  "digits_value ds = foldl (\<lambda>n c. 10 * n + (unat c - 48)) 0 ds"

definition hex_value :: "cu \<Rightarrow> nat option" where
  "hex_value c =
     (if cu CHR ''0'' \<le> c \<and> c \<le> cu CHR ''9'' then Some (unat c - 48)
      else if cu CHR ''a'' \<le> c \<and> c \<le> cu CHR ''f'' then Some (unat c - 87)
      else if cu CHR ''A'' \<le> c \<and> c \<le> cu CHR ''F'' then Some (unat c - 55)
      else None)"

definition hex4 :: "cu \<Rightarrow> cu \<Rightarrow> cu \<Rightarrow> cu \<Rightarrow> cu option" where
  "hex4 a b c d =
     (case (hex_value a, hex_value b, hex_value c, hex_value d) of
        (Some w, Some x, Some y, Some z) \<Rightarrow> Some (of_nat (((w * 16 + x) * 16 + y) * 16 + z))
      | _ \<Rightarrow> None)"

definition escape :: "cu \<Rightarrow> cu option" where
  "escape e =
     (if e = cu CHR ''\"'' then Some (cu CHR ''\"'')
      else if e = 0x5C then Some 0x5C
      else if e = cu CHR ''/'' then Some (cu CHR ''/'')
      else if e = cu CHR ''b'' then Some 0x08
      else if e = cu CHR ''f'' then Some 0x0C
      else if e = cu CHR ''n'' then Some 0x0A
      else if e = cu CHR ''r'' then Some 0x0D
      else if e = cu CHR ''t'' then Some 0x09
      else None)"

text \<open>The characters of a string literal, after the opening quote, up to the closing one.\<close>

fun parse_chars :: "jsstring \<Rightarrow> (jsstring \<times> jsstring) option" where
  "parse_chars [] = None"
| "parse_chars (c # r) =
     (if c = cu CHR ''\"'' then Some ([], r)
      else if c = 0x5C then
        (case r of
           [] \<Rightarrow> None
         | e # r1 \<Rightarrow>
             if e = cu CHR ''u'' then
               (case r1 of
                  h1 # h2 # h3 # h4 # r2 \<Rightarrow>
                    (case hex4 h1 h2 h3 h4 of
                       None \<Rightarrow> None
                     | Some u \<Rightarrow> map_option (\<lambda>(t, rest). (u # t, rest)) (parse_chars r2))
                | _ \<Rightarrow> None)
             else
               (case escape e of
                  None \<Rightarrow> None
                | Some x \<Rightarrow> map_option (\<lambda>(t, rest). (x # t, rest)) (parse_chars r1)))
      else if c < 0x20 then None
      else map_option (\<lambda>(t, rest). (c # t, rest)) (parse_chars r))"

text \<open>
  Numbers: \<open>-? (0 | [1-9][0-9]*) (. [0-9]+)? ([eE] [+-]? [0-9]+)?\<close>.
\<close>

definition parse_int_part :: "jsstring \<Rightarrow> (jsstring \<times> jsstring) option" where
  "parse_int_part s =
     (case s of
        [] \<Rightarrow> None
      | c # r \<Rightarrow>
          if c = cu CHR ''0'' then Some ([c], r)
          else if is_digit c then Some (takeWhile is_digit s, dropWhile is_digit s)
          else None)"

definition parse_frac_part :: "jsstring \<Rightarrow> (jsstring \<times> jsstring) option" where
  "parse_frac_part s =
     (case s of
        [] \<Rightarrow> Some ([], s)
      | c # r \<Rightarrow>
          if c = cu CHR ''.'' then
            (if takeWhile is_digit r = [] then None
             else Some (takeWhile is_digit r, dropWhile is_digit r))
          else Some ([], s))"

definition parse_exp_sign :: "jsstring \<Rightarrow> bool \<times> jsstring" where
  "parse_exp_sign r =
     (case r of
        [] \<Rightarrow> (False, r)
      | d # r1 \<Rightarrow>
          if d = cu CHR ''-'' then (True, r1)
          else if d = cu CHR ''+'' then (False, r1)
          else (False, r))"

definition parse_exp_part :: "jsstring \<Rightarrow> (int \<times> jsstring) option" where
  "parse_exp_part s =
     (case s of
        [] \<Rightarrow> Some (0, s)
      | c # r \<Rightarrow>
          if c = cu CHR ''e'' \<or> c = cu CHR ''E'' then
            (case parse_exp_sign r of
               (neg, r1) \<Rightarrow>
                 if takeWhile is_digit r1 = [] then None
                 else Some ((if neg then - int (digits_value (takeWhile is_digit r1))
                             else int (digits_value (takeWhile is_digit r1))),
                            dropWhile is_digit r1))
          else Some (0, s))"

definition parse_number :: "jsstring \<Rightarrow> (json \<times> jsstring) option" where
  "parse_number s =
     (case (case s of [] \<Rightarrow> (False, s)
                    | c # r \<Rightarrow> if c = cu CHR ''-'' then (True, r) else (False, s)) of
        (neg, s1) \<Rightarrow>
          (case parse_int_part s1 of
             None \<Rightarrow> None
           | Some (ip, s2) \<Rightarrow>
               (case parse_frac_part s2 of
                  None \<Rightarrow> None
                | Some (fp, s3) \<Rightarrow>
                    (case parse_exp_part s3 of
                       None \<Rightarrow> None
                     | Some (e, s4) \<Rightarrow>
                         Some (JNumber neg (digits_value (ip @ fp)) (e - int (length fp)),
                               s4)))))"

text \<open>
  \<open>CreateDataProperty\<close> on the object under construction: a repeated key keeps its
  place and takes the later value.
\<close>

fun obj_set :: "jsstring \<Rightarrow> json \<Rightarrow> (jsstring \<times> json) list \<Rightarrow> (jsstring \<times> json) list" where
  "obj_set k v [] = [(k, v)]"
| "obj_set k v ((k', v') # ps) = (if k = k' then (k, v) # ps else (k', v') # obj_set k v ps)"

definition make_object :: "(jsstring \<times> json) list \<Rightarrow> json" where
  "make_object members = JObject (foldl (\<lambda>ps (k, v). obj_set k v ps) [] members)"

text \<open>
  The value grammar, by recursive descent. Each function returns the value and the
  unread rest. A recursive call on the rest of an earlier call is made only where that
  rest is shorter than the input, which is what makes the recursion terminate;
  \<open>parse_elements_plain\<close> and \<open>parse_members_plain\<close> below show that the test
  never fails.
\<close>

function parse_value :: "jsstring \<Rightarrow> (json \<times> jsstring) option"
  and parse_elements :: "jsstring \<Rightarrow> (json list \<times> jsstring) option"
  and parse_members :: "jsstring \<Rightarrow> ((jsstring \<times> json) list \<times> jsstring) option"
where
  "parse_value s =
     (case skip_ws s of
        [] \<Rightarrow> None
      | c # r \<Rightarrow>
          if c = cu CHR ''{'' then
            (case skip_ws r of
               [] \<Rightarrow> None
             | c1 # r1 \<Rightarrow>
                 if c1 = cu CHR ''}'' then Some (JObject [], r1)
                 else map_option (\<lambda>(ms, rest). (make_object ms, rest)) (parse_members r))
          else if c = cu CHR ''['' then
            (case skip_ws r of
               [] \<Rightarrow> None
             | c1 # r1 \<Rightarrow>
                 if c1 = cu CHR '']'' then Some (JArray [], r1)
                 else map_option (\<lambda>(vs, rest). (JArray vs, rest)) (parse_elements r))
          else if c = cu CHR ''\"'' then
            map_option (\<lambda>(t, rest). (JString t, rest)) (parse_chars r)
          else if c = cu CHR ''t'' then
            map_option (\<lambda>rest. (JBool True, rest)) (strip_prefix (js ''true'') (c # r))
          else if c = cu CHR ''f'' then
            map_option (\<lambda>rest. (JBool False, rest)) (strip_prefix (js ''false'') (c # r))
          else if c = cu CHR ''n'' then
            map_option (\<lambda>rest. (JNull, rest)) (strip_prefix (js ''null'') (c # r))
          else parse_number (c # r))"
| "parse_elements s =
     (case parse_value s of
        None \<Rightarrow> None
      | Some (v, r) \<Rightarrow>
          (case skip_ws r of
             [] \<Rightarrow> None
           | c # r1 \<Rightarrow>
               if c = cu CHR '']'' then Some ([v], r1)
               else if c = cu CHR '','' \<and> length r1 < length s then
                 map_option (\<lambda>(vs, rest). (v # vs, rest)) (parse_elements r1)
               else None))"
| "parse_members s =
     (case skip_ws s of
        [] \<Rightarrow> None
      | q # r \<Rightarrow>
          if q = cu CHR ''\"'' then
            (case parse_chars r of
               None \<Rightarrow> None
             | Some (k, r1) \<Rightarrow>
                 (case skip_ws r1 of
                    [] \<Rightarrow> None
                  | c1 # r2 \<Rightarrow>
                      if c1 = cu CHR '':'' \<and> length r2 < length s then
                        (case parse_value r2 of
                           None \<Rightarrow> None
                         | Some (v, r3) \<Rightarrow>
                             (case skip_ws r3 of
                                [] \<Rightarrow> None
                              | c3 # r4 \<Rightarrow>
                                  if c3 = cu CHR ''}'' then Some ([(k, v)], r4)
                                  else if c3 = cu CHR '','' \<and> length r4 < length s then
                                    map_option (\<lambda>(ms, rest). ((k, v) # ms, rest))
                                      (parse_members r4)
                                  else None))
                      else None))
          else None)"
  by pat_completeness auto

lemma length_skip_ws: "length (skip_ws s) \<le> length s"
  by (simp add: skip_ws_def length_dropWhile_le)

lemma skip_ws_Cons_length: "skip_ws s = c # r \<Longrightarrow> length r < length s"
  using length_skip_ws [of s] by simp

termination parse_value
  by (relation "measure (\<lambda>x. case x of
                   Inl s \<Rightarrow> 2 * length s
                 | Inr (Inl s) \<Rightarrow> 2 * length s + 1
                 | Inr (Inr s) \<Rightarrow> 2 * length s + 1)")
     (auto dest: skip_ws_Cons_length)

text \<open>\<open>JSON.parse\<close>: one value between optional white space; \<open>None\<close> is the SyntaxError.\<close>

definition JSON_parse :: "jsstring \<Rightarrow> json option" where
  "JSON_parse s =
     (case parse_value s of
        None \<Rightarrow> None
      | Some (v, r) \<Rightarrow> if skip_ws r = [] then Some v else None)"

section \<open>Values, property reads and conversions\<close>

text \<open>
  \<open>v.name\<close> on a value that is neither \<open>null\<close> nor \<open>undefined\<close>; \<open>None\<close> is
  \<open>undefined\<close>. The names the source reads (\<open>candidates\<close>, \<open>content\<close>, \<open>parts\<close>,
  \<open>text\<close>, \<open>error\<close>, \<open>message\<close>) are inherited by no object, array, string, number
  or boolean, so only an object's own property can answer.
\<close>

definition member :: "json \<Rightarrow> jsstring \<Rightarrow> json option" where
  "member v name = (case v of JObject ps \<Rightarrow> map_of ps name | _ \<Rightarrow> None)"

text \<open>\<open>v[0]\<close>: the first element of an array, the first code unit of a string, or the
  property \<open>"0"\<close> of an object.\<close>

definition first_of :: "json \<Rightarrow> json option" where
  "first_of v =
     (case v of
        JObject ps \<Rightarrow> map_of ps (js ''0'')
      | JArray xs \<Rightarrow> (case xs of [] \<Rightarrow> None | x # _ \<Rightarrow> Some x)
      | JString t \<Rightarrow> (case t of [] \<Rightarrow> None | c # _ \<Rightarrow> Some (JString [c]))
      | _ \<Rightarrow> None)"

text \<open>Optional chaining \<open>v?.name\<close> and \<open>v?.[0]\<close>: \<open>undefined\<close> when \<open>v\<close> is
  \<open>undefined\<close> or \<open>null\<close>.\<close>

definition opt_member :: "json option \<Rightarrow> jsstring \<Rightarrow> json option" where
  "opt_member v name =
     (case v of None \<Rightarrow> None | Some JNull \<Rightarrow> None | Some w \<Rightarrow> member w name)"

definition opt_first :: "json option \<Rightarrow> json option" where
  "opt_first v = (case v of None \<Rightarrow> None | Some JNull \<Rightarrow> None | Some w \<Rightarrow> first_of w)"

text \<open>
  A number literal denotes the double nearest to its decimal value; that double is zero
  exactly when the value is at most \<open>2^-1075\<close>, half of the least positive double.
\<close>

definition rounds_to_zero :: "nat \<Rightarrow> int \<Rightarrow> bool" where
  "rounds_to_zero m e \<longleftrightarrow> (if 0 \<le> e then m = 0 else m * 2 ^ 1075 \<le> 10 ^ nat (- e))"

text \<open>\<open>ToBoolean\<close>, as \<open>!text\<close> and \<open>||\<close> apply it.\<close>

fun truthy :: "json \<Rightarrow> bool" where
  "truthy JNull = False"
| "truthy (JBool b) = b"
| "truthy (JNumber neg m e) = (\<not> rounds_to_zero m e)"
| "truthy (JString t) = (t \<noteq> [])"
| "truthy (JArray xs) = True"
| "truthy (JObject ps) = True"

fun join_comma :: "jsstring option list \<Rightarrow> jsstring option" where
  "join_comma [] = Some []"
| "join_comma [x] = x"
| "join_comma (x # y # ys) =
     (case x of
        None \<Rightarrow> None
      | Some a \<Rightarrow> map_option (\<lambda>b. a @ js '','' @ b) (join_comma (y # ys)))"

text \<open>
  \<open>ToString\<close>, as a template literal applies it. The text of a number is left to the
  parameter \<open>num\<close>. An array joins its elements with commas, \<open>null\<close> giving the empty
  text. An object gives \<open>[object Object]\<close>, unless it has a property \<open>toString\<close> of its
  own: a JSON value is not callable, and the conversion throws a TypeError (\<open>None\<close>).
\<close>

fun ToString :: "(bool \<Rightarrow> nat \<Rightarrow> int \<Rightarrow> jsstring) \<Rightarrow> json \<Rightarrow> jsstring option" where
  "ToString num JNull = Some (js ''null'')"
| "ToString num (JBool b) = Some (if b then js ''true'' else js ''false'')"
| "ToString num (JNumber neg m e) = Some (num neg m e)"
| "ToString num (JString t) = Some t"
| "ToString num (JArray xs) =
     join_comma (map (\<lambda>x. if x = JNull then Some [] else ToString num x) xs)"
| "ToString num (JObject ps) =
     (if js ''toString'' \<in> fst ` set ps then None else Some (js ''[object Object]''))"

section \<open>Base64\<close>

text \<open>
  The analyzer sends the image as base64 text. The text comes from \<open>File.base64()\<close> of
  expo-file-system, whose code is not part of the sources, and the sources hold no
  decoder; both directions are modelled here from what the spec says of the encoding.
\<close>

type_synonym byte = "8 word"

definition base64_alphabet :: jsstring where
  "base64_alphabet = js ''ABCDEFGHIJKLMNOPQRSTUVWXYZabcdefghijklmnopqrstuvwxyz0123456789+/''"

definition b64_char :: "nat \<Rightarrow> cu" where
  "b64_char n = base64_alphabet ! n"

text \<open>
  Modelled from the spec: \<open>File.base64()\<close>, missing from the sources. The spec calls its
  result the base64 text encoding of the image bytes, the wire format the endpoint
  requires: three bytes give four characters of the standard alphabet, and a last group
  of one or two bytes is padded with \<open>=\<close>.
\<close>

fun base64_encode :: "byte list \<Rightarrow> jsstring" where
  "base64_encode [] = []"
| "base64_encode [a] =
     [b64_char (unat a div 4), b64_char (unat a mod 4 * 16), cu CHR ''='', cu CHR ''='']"
| "base64_encode [a, b] =
     [b64_char (unat a div 4), b64_char (unat a mod 4 * 16 + unat b div 16),
      b64_char (unat b mod 16 * 4), cu CHR ''='']"
| "base64_encode (a # b # c # rest) =
     [b64_char (unat a div 4), b64_char (unat a mod 4 * 16 + unat b div 16),
      b64_char (unat b mod 16 * 4 + unat c div 64), b64_char (unat c mod 64)]
     @ base64_encode rest"

fun index_in :: "cu list \<Rightarrow> cu \<Rightarrow> nat option" where
  "index_in [] c = None"
| "index_in (x # xs) c = (if x = c then Some 0 else map_option Suc (index_in xs c))"

definition b64_index :: "cu \<Rightarrow> nat option" where
  "b64_index c = index_in base64_alphabet c"

text \<open>
  Modelled from the spec: the decoding of the wire text, missing from the sources (the
  spec's round trip decodes what was encoded). Four characters give three bytes, a padded
  last group gives one or two; \<open>None\<close> is a text that is not base64.
\<close>

fun base64_decode :: "jsstring \<Rightarrow> byte list option" where
  "base64_decode [] = Some []"
| "base64_decode (c1 # c2 # c3 # c4 # rest) =
     (case (b64_index c1, b64_index c2) of
        (Some i1, Some i2) \<Rightarrow>
          (if rest = [] \<and> c3 = cu CHR ''='' \<and> c4 = cu CHR ''='' then
             Some [of_nat (i1 * 4 + i2 div 16)]
           else
             (case b64_index c3 of
                None \<Rightarrow> None
              | Some i3 \<Rightarrow>
                  (if rest = [] \<and> c4 = cu CHR ''='' then
                     Some [of_nat (i1 * 4 + i2 div 16), of_nat (i2 mod 16 * 16 + i3 div 4)]
                   else
                     (case b64_index c4 of
                        None \<Rightarrow> None
                      | Some i4 \<Rightarrow>
                          map_option
                            (\<lambda>bs. of_nat (i1 * 4 + i2 div 16)
                               # of_nat (i2 mod 16 * 16 + i3 div 4)
                               # of_nat (i3 mod 4 * 64 + i4) # bs)
                            (base64_decode rest)))))
      | _ \<Rightarrow> None)"
| "base64_decode _ = None"

section \<open>The meal image analyzer\<close>

text \<open>
  The module throws while it loads when \<open>GEMINI_API_KEY\<close> is not configured; what
  follows is the module once loaded.

  What the analyzer meets outside itself: the configured endpoint address, the files
  \<open>new File(uri)\<close> can read (\<open>None\<close> where the read throws), the answer of \<open>fetch\<close>
  to a request (\<open>None\<close> where it rejects), and the text JavaScript prints for a number.
\<close>

record request =
  url :: jsstring
  http_method :: jsstring
  headers :: "(jsstring \<times> jsstring) list"
  body :: json \<comment> \<open>the value handed to \<open>JSON.stringify\<close>\<close>

record response =
  ok :: bool
  statusText :: jsstring
  body_text :: jsstring \<comment> \<open>the text \<open>response.json()\<close> parses\<close>

record world =
  API_URL :: jsstring
  file_bytes :: "jsstring \<Rightarrow> byte list option"
  fetch :: "request \<Rightarrow> response option"
  number_text :: "bool \<Rightarrow> nat \<Rightarrow> int \<Rightarrow> jsstring"

text \<open>
  The errors \<open>analyzeImageWithGemini\<close> can throw, one constructor for each place that
  throws. \<open>message\<close> is the text of the \<open>Error\<close> the source builds itself.
\<close>

datatype error =
    FileError \<comment> \<open>\<open>new File(uri)\<close> or \<open>file.base64()\<close> throws\<close>
  | UnsupportedFormat jsstring
  | NetworkError \<comment> \<open>\<open>fetch\<close> rejects\<close>
  | SyntaxError \<comment> \<open>\<open>response.json()\<close> on a body that is not JSON\<close>
  | TypeError \<comment> \<open>a property read on \<open>null\<close>, or a failing \<open>ToString\<close>\<close>
  | UpstreamError jsstring
  | EmptyResponse
  | MalformedPayload

fun message :: "error \<Rightarrow> jsstring option" where
  "message (UnsupportedFormat mimeType) =
     Some (js ''Unsupported image format: '' @ mimeType @ js ''. Convert to JPEG or PNG.'')"
| "message (UpstreamError m) = Some (js ''API Error: '' @ m)"
| "message EmptyResponse = Some (js ''No content returned from Gemini API.'')"
| "message MalformedPayload =
     Some (js ''Received an invalid format from the AI. Response was not a valid JSON object.'')"
| "message _ = None"

text \<open>What a call does besides returning: the requests it submits and the lines it
  writes with \<open>console.error\<close>, in order.\<close>

datatype event =
    Fetch request
  | ConsoleError jsstring json

definition supportedMimeTypes :: "jsstring list" where
  "supportedMimeTypes =
     [js ''image/jpeg'', js ''image/png'', js ''image/webp'', js ''image/heic'',
      js ''image/heif'']"

text \<open>The prompt is one template literal; its last nine lines show the structure asked for.\<close>

definition prompt_template :: jsstring where
  "prompt_template =
     js ''{\<newline>  \"meal_name\": \"...\",\<newline>  \"description\": \"...\",\<newline>  \"calories\": 0,\<newline>  \"protein_g\": 0,\<newline>  \"carbs_g\": 0,\<newline>  \"fat_g\": 0\<newline>}''"

definition MealRecognitionPrompt :: jsstring where
  "MealRecognitionPrompt =
     js ''You are a meal recognition AI. Identify the food in this image and return ONLY a JSON object with the following structure:\<newline>''
     @ prompt_template"

definition build_request :: "world \<Rightarrow> jsstring \<Rightarrow> jsstring \<Rightarrow> request" where
  "build_request w mimeType base64Image =
     \<lparr> url = API_URL w,
       http_method = js ''POST'',
       headers = [(js ''Content-Type'', js ''application/json'')],
       body =
         JObject [(js ''contents'',
           JArray [JObject [(js ''parts'',
             JArray
               [JObject [(js ''text'', JString MealRecognitionPrompt)],
                JObject [(js ''inline_data'',
                  JObject [(js ''mime_type'', JString mimeType),
                           (js ''data'', JString base64Image)])]])]])] \<rparr>"

text \<open>Step 3 of the source: the text handed to \<open>JSON.parse\<close>.\<close>

definition cleanedText :: "jsstring \<Rightarrow> jsstring" where
  "cleanedText text = trim (removeFences text)"

definition brace_slice :: "jsstring \<Rightarrow> jsstring" where
  "brace_slice cleaned =
     (let jsonStart = indexOf cleaned (cu CHR ''{'');
          jsonEnd = lastIndexOf cleaned (cu CHR ''}'') + 1
      in substring cleaned jsonStart jsonEnd)"

definition jsonString :: "jsstring \<Rightarrow> jsstring" where
  "jsonString text = brace_slice (cleanedText text)"

text \<open>
  The inner \<open>try\<close>. Whatever is thrown inside it is caught: a \<open>text\<close> that is no string
  has no \<open>replace\<close> method, and \<open>JSON.parse\<close> throws on a text that is not JSON. The
  handler writes the raw \<open>text\<close> to the console and throws the fixed error.
\<close>

definition parse_reply :: "json \<Rightarrow> (error + json) \<times> event list" where
  "parse_reply text =
     (case (case text of JString t \<Rightarrow> JSON_parse (jsonString t) | _ \<Rightarrow> None) of
        Some meal \<Rightarrow> (Inr meal, [])
      | None \<Rightarrow>
          (Inl MalformedPayload,
           [ConsoleError (js ''Failed to parse JSON from API response:'') text]))"

text \<open>\<open>data?.candidates?.[0]?.content?.parts?.[0]?.text\<close>\<close>

definition reply_text :: "json \<Rightarrow> json option" where
  "reply_text data =
     opt_member
       (opt_first
          (opt_member
             (opt_member (opt_first (opt_member (Some data) (js ''candidates'')))
                (js ''content''))
             (js ''parts'')))
       (js ''text'')"

text \<open>\<open>errorData.error?.message\<close>. The first read has no \<open>?.\<close>: on \<open>null\<close> it
  throws, which \<open>error_text\<close> answers before it asks.\<close>

definition upstream_message :: "json \<Rightarrow> json option" where
  "upstream_message errorData = opt_member (member errorData (js ''error'')) (js ''message'')"

text \<open>\<open>errorData.error?.message || response.statusText\<close>, inside the template literal.\<close>

definition error_text :: "world \<Rightarrow> response \<Rightarrow> json \<Rightarrow> error + jsstring" where
  "error_text w resp errorData =
     (if errorData = JNull then Inl TypeError
      else
        (case upstream_message errorData of
           None \<Rightarrow> Inr (statusText resp)
         | Some m \<Rightarrow>
             if truthy m then
               (case ToString (number_text w) m of None \<Rightarrow> Inl TypeError | Some t \<Rightarrow> Inr t)
             else Inr (statusText resp)))"

text \<open>Lines 71 to 93: what the analyzer makes of the response.\<close>

definition handle_response :: "world \<Rightarrow> response \<Rightarrow> (error + json) \<times> event list" where
  "handle_response w resp =
     (if \<not> ok resp then
        (case JSON_parse (body_text resp) of
           None \<Rightarrow> (Inl SyntaxError, [])
         | Some errorData \<Rightarrow>
             (case error_text w resp errorData of
                Inl e \<Rightarrow> (Inl e, [])
              | Inr m \<Rightarrow> (Inl (UpstreamError m), [])))
      else
        (case JSON_parse (body_text resp) of
           None \<Rightarrow> (Inl SyntaxError, [])
         | Some data \<Rightarrow>
             (case reply_text data of
                None \<Rightarrow> (Inl EmptyResponse, [])
              | Some text \<Rightarrow>
                  if \<not> truthy text then (Inl EmptyResponse, []) else parse_reply text)))"

text \<open>The default value of the parameter \<open>mimeType\<close>; an omitted argument is \<open>None\<close>.\<close>

definition default_mimeType :: "jsstring option \<Rightarrow> jsstring" where
  "default_mimeType mimeTypeArg =
     (case mimeTypeArg of None \<Rightarrow> js ''image/jpeg'' | Some t \<Rightarrow> t)"

text \<open>
  \<open>analyzeImageWithGemini(uri, mimeType = "image/jpeg")\<close>: the result, \<open>Inl\<close> for a
  rejected promise, and the events of the call. The file is read first, the media type
  is checked second. The outer \<open>catch\<close> throws again what it caught.
\<close>

definition analyzeImageWithGemini ::
  "world \<Rightarrow> jsstring \<Rightarrow> jsstring option \<Rightarrow> (error + json) \<times> event list" where
  "analyzeImageWithGemini w uri mimeTypeArg =
     (let mimeType = default_mimeType mimeTypeArg in
      case file_bytes w uri of
        None \<Rightarrow> (Inl FileError, [])
      | Some bytes \<Rightarrow>
          let base64Image = base64_encode bytes in
          if mimeType \<notin> set supportedMimeTypes then (Inl (UnsupportedFormat mimeType), [])
          else
            (case fetch w (build_request w mimeType base64Image) of
               None \<Rightarrow> (Inl NetworkError, [Fetch (build_request w mimeType base64Image)])
             | Some resp \<Rightarrow>
                 (case handle_response w resp of
                    (result, events) \<Rightarrow>
                      (result, Fetch (build_request w mimeType base64Image) # events))))"

text \<open>The requests among the events of a call.\<close>

fun fetches :: "event list \<Rightarrow> request list" where
  "fetches [] = []"
| "fetches (Fetch r # es) = r # fetches es"
| "fetches (ConsoleError l v # es) = fetches es"

text \<open>The structure the instruction shows to the model, and its keys.\<close>

definition prompt_structure :: "json option" where
  "prompt_structure = JSON_parse prompt_template"

definition prompt_keys :: "jsstring list" where
  "prompt_keys = (case prompt_structure of Some (JObject ps) \<Rightarrow> map fst ps | _ \<Rightarrow> [])"

section \<open>Example worlds\<close>

text \<open>
  Concrete surroundings for the instances below: a three-byte file at every address and
  an endpoint that gives the same response to every request.
\<close>

definition world_answering :: "response \<Rightarrow> world" where
  "world_answering resp =
     \<lparr> API_URL = js ''https://generativelanguage.example/generateContent?key=K'',
       file_bytes = (\<lambda>uri. Some [0xFF, 0xD8, 0xFF]),
       fetch = (\<lambda>req. Some resp),
       number_text = (\<lambda>neg m e. js ''0'') \<rparr>"

definition world_without_file :: world where
  "world_without_file =
     \<lparr> API_URL = js ''https://generativelanguage.example/generateContent?key=K'',
       file_bytes = (\<lambda>uri. None),
       fetch = (\<lambda>req. None),
       number_text = (\<lambda>neg m e. js ''0'') \<rparr>"

definition http_response :: "bool \<Rightarrow> jsstring \<Rightarrow> jsstring \<Rightarrow> response" where
  "http_response success status text = \<lparr> ok = success, statusText = status, body_text = text \<rparr>"

text \<open>The JSON string literal of a text with no control character but the line feed.\<close>

fun json_quote_chars :: "jsstring \<Rightarrow> jsstring" where
  "json_quote_chars [] = []"
| "json_quote_chars (c # cs) =
     (if c = cu CHR ''\"'' \<or> c = 0x5C then 0x5C # c # json_quote_chars cs
      else if c = 0x0A then 0x5C # cu CHR ''n'' # json_quote_chars cs
      else c # json_quote_chars cs)"

definition json_quote :: "jsstring \<Rightarrow> jsstring" where
  "json_quote t = cu CHR ''\"'' # json_quote_chars t @ [cu CHR ''\"'']"

text \<open>The body of a success response whose first candidate's first part holds \<open>text\<close>.\<close>

definition envelope :: "jsstring \<Rightarrow> jsstring" where
  "envelope text =
     js ''{\"candidates\":[{\"content\":{\"parts\":[{\"text\":'' @ json_quote text
     @ js ''}],\"role\":\"model\"}}]}''"

text \<open>The value that body denotes, for a text part \<open>t\<close>.\<close>

definition envelope_content :: "json \<Rightarrow> json" where
  "envelope_content t =
     JObject [(js ''parts'', JArray [JObject [(js ''text'', t)]]),
              (js ''role'', JString (js ''model''))]"

definition envelope_candidate :: "json \<Rightarrow> json" where
  "envelope_candidate t = JObject [(js ''content'', envelope_content t)]"

definition envelope_value :: "json \<Rightarrow> json" where
  "envelope_value t = JObject [(js ''candidates'', JArray [envelope_candidate t])]"

text \<open>The reply of the spec's example, and the value it denotes.\<close>

definition apple_text :: jsstring where
  "apple_text =
     js ''{\"name\":\"Apple\",\"description\":\"A fruit\",\"calories\":95,\"protein_g\":0,\"carbs_g\":25,\"fat_g\":0}''"

definition apple_meal :: json where
  "apple_meal =
     JObject
       [(js ''name'', JString (js ''Apple'')),
        (js ''description'', JString (js ''A fruit'')),
        (js ''calories'', JNumber False 95 0),
        (js ''protein_g'', JNumber False 0 0),
        (js ''carbs_g'', JNumber False 25 0),
        (js ''fat_g'', JNumber False 0 0)]"

section \<open>Notions of the specification\<close>

text \<open>
  \<open>encloses s inner\<close>: the text \<open>s\<close> has a \<open>{\<close> with a \<open>}\<close> after it, and \<open>inner\<close> is
  what stands between its first \<open>{\<close> and its last \<open>}\<close>.
\<close>

definition encloses :: "jsstring \<Rightarrow> jsstring \<Rightarrow> bool" where
  "encloses s inner \<longleftrightarrow>
     (\<exists>before after. s = before @ cu CHR ''{'' # inner @ cu CHR ''}'' # after
        \<and> cu CHR ''{'' \<notin> set before \<and> cu CHR ''}'' \<notin> set after)"

text \<open>A fenced reply, as a model may send it.\<close>

definition fenced_example :: jsstring where
  "fenced_example = js ''```json\<newline>{\"a\":1}\<newline>```''"

section \<open>Properties\<close>

subsection \<open>The parser consumes its input\<close>


lemma parse_chars_shorter: "parse_chars s = Some (t, r) \<Longrightarrow> length r < length s"
proof (induction s arbitrary: t r rule: parse_chars.induct)
  case 1
  then show ?case by simp
next
  case (2 c r0)
  then show ?case
    by (auto split: if_splits list.splits option.splits) fastforce+
qed

lemma parse_int_part_shorter: "parse_int_part s = Some (ds, r) \<Longrightarrow> length r < length s"
  by (cases s) (auto simp: parse_int_part_def split: if_splits
      intro: le_imp_less_Suc length_dropWhile_le)

lemma parse_frac_part_shorter: "parse_frac_part s = Some (ds, r) \<Longrightarrow> length r \<le> length s"
  by (cases s) (auto simp: parse_frac_part_def split: if_splits
      intro: le_SucI length_dropWhile_le)

lemma parse_exp_part_shorter: "parse_exp_part s = Some (e, r) \<Longrightarrow> length r \<le> length s"
proof (cases s)
  case Nil
  then show "parse_exp_part s = Some (e, r) \<Longrightarrow> length r \<le> length s"
    by (simp add: parse_exp_part_def)
next
  case (Cons c r0)
  assume a: "parse_exp_part s = Some (e, r)"
  obtain neg r1 where p: "parse_exp_sign r0 = (neg, r1)" by force
  then have "length r1 \<le> length r0"
    by (cases r0) (auto simp: parse_exp_sign_def split: if_splits)
  moreover have "length (dropWhile is_digit r1) \<le> length r1"
    by (rule length_dropWhile_le)
  ultimately show "length r \<le> length s"
    using a Cons p by (auto simp: parse_exp_part_def split: if_splits)
qed

lemma parse_number_shorter: "parse_number s = Some (v, r) \<Longrightarrow> length r < length s"
proof -
  assume a: "parse_number s = Some (v, r)"
  obtain neg s1 where n: "(case s of [] \<Rightarrow> (False, s)
       | c # r \<Rightarrow> if c = cu CHR ''-'' then (True, r) else (False, s)) = (neg, s1)"
    by force
  then have 1: "length s1 \<le> length s"
    by (cases s) (auto split: if_splits)
  from a n obtain ip s2 fp s3 e where "parse_int_part s1 = Some (ip, s2)"
    "parse_frac_part s2 = Some (fp, s3)" "parse_exp_part s3 = Some (e, r)"
    by (auto simp: parse_number_def split: option.splits)
  then have "length s2 < length s1" "length s3 \<le> length s2" "length r \<le> length s3"
    by (auto dest: parse_int_part_shorter parse_frac_part_shorter parse_exp_part_shorter)
  with 1 show ?thesis by simp
qed


lemma parse_shorter:
  "(\<forall>v r. parse_value s = Some (v, r) \<longrightarrow> length r < length s)"
  "(\<forall>vs r. parse_elements s1 = Some (vs, r) \<longrightarrow> length r < length s1)"
  "(\<forall>ms r. parse_members s2 = Some (ms, r) \<longrightarrow> length r < length s2)"
proof (induction s and s1 and s2 rule: parse_value_parse_elements_parse_members.induct)
  case (1 s)
  show ?case
  proof (intro allI impI)
    fix v r
    assume a: "parse_value s = Some (v, r)"
    then obtain c r0 where sk: "skip_ws s = c # r0"
      by (cases "skip_ws s") (auto simp: parse_value.simps [of s])
    then have l0: "length r0 < length s"
      by (rule skip_ws_Cons_length)
    have l1: "length x < length s" if "strip_prefix (p # ps) (c # r0) = Some x" for p ps x
      using strip_prefix_shorter [OF that] l0 by simp
    consider (obj) "c = cu CHR ''{''" | (arr) "c \<noteq> cu CHR ''{''" "c = cu CHR ''[''"
      | (other) "c \<noteq> cu CHR ''{''" "c \<noteq> cu CHR ''[''"
      by blast
    then show "length r < length s"
    proof cases
      case obj
      show ?thesis
      proof (cases "skip_ws r0")
        case Nil
        with a sk obj show ?thesis by (simp add: parse_value.simps [of s])
      next
        case (Cons c1 r1)
        then have l2: "length r1 < length r0" by (rule skip_ws_Cons_length)
        show ?thesis
        proof (cases "c1 = cu CHR ''}''")
          case True
          with a sk obj Cons have "r = r1" by (simp add: parse_value.simps [of s])
          with l0 l2 show ?thesis by simp
        next
          case False
          with a sk obj Cons obtain ms where "parse_members r0 = Some (ms, r)"
            by (auto simp: parse_value.simps [of s])
          moreover have "\<forall>ms r. parse_members r0 = Some (ms, r) \<longrightarrow> length r < length r0"
            using 1(1) [OF sk obj Cons False] .
          ultimately show ?thesis using l0 by force
        qed
      qed
    next
      case arr
      show ?thesis
      proof (cases "skip_ws r0")
        case Nil
        with a sk arr show ?thesis by (simp add: parse_value.simps [of s])
      next
        case (Cons c1 r1)
        then have l2: "length r1 < length r0" by (rule skip_ws_Cons_length)
        show ?thesis
        proof (cases "c1 = cu CHR '']''")
          case True
          with a sk arr Cons have "r = r1" by (simp add: parse_value.simps [of s])
          with l0 l2 show ?thesis by simp
        next
          case False
          with a sk arr Cons obtain vs where "parse_elements r0 = Some (vs, r)"
            by (auto simp: parse_value.simps [of s])
          moreover have "\<forall>vs r. parse_elements r0 = Some (vs, r) \<longrightarrow> length r < length r0"
            using 1(2) [OF sk arr Cons False] .
          ultimately show ?thesis using l0 by force
        qed
      qed
    next
      case other
      with a sk have
        "(c = cu CHR ''\"'' \<and> (\<exists>t. parse_chars r0 = Some (t, r)))
         \<or> (\<exists>p ps. strip_prefix (p # ps) (c # r0) = Some r)
         \<or> parse_number (c # r0) = Some (v, r)"
        by (auto simp: parse_value.simps [of s] js_def split: if_splits)
      then show ?thesis
        using l0 l1 by (auto dest: parse_chars_shorter parse_number_shorter)
    qed
  qed
next
  case (2 s)
  show ?case
  proof (intro allI impI)
    fix vs r
    assume a: "parse_elements s = Some (vs, r)"
    then obtain v r0 where pv: "parse_value s = Some (v, r0)"
      by (cases "parse_value s") (auto simp: parse_elements.simps [of s])
    with 2(1) have l0: "length r0 < length s" by blast
    from a pv obtain c r1 where sk: "skip_ws r0 = c # r1"
      by (cases "skip_ws r0") (auto simp: parse_elements.simps [of s])
    then have l1: "length r1 < length r0" by (rule skip_ws_Cons_length)
    show "length r < length s"
    proof (cases "c = cu CHR '']''")
      case True
      with a pv sk have "r = r1" by (simp add: parse_elements.simps [of s])
      with l0 l1 show ?thesis by simp
    next
      case False
      with a pv sk have c: "c = cu CHR '',''" "length r1 < length s"
        by (auto simp: parse_elements.simps [of s] split: if_splits)
      with a pv sk False obtain ws where "parse_elements r1 = Some (ws, r)"
        by (auto simp: parse_elements.simps [of s])
      moreover have "\<forall>vs r. parse_elements r1 = Some (vs, r) \<longrightarrow> length r < length r1"
        using 2(2) [OF pv refl sk False] c by blast
      ultimately show ?thesis using c(2) by force
    qed
  qed
next
  case (3 s)
  show ?case
  proof (intro allI impI)
    fix ms r
    assume a: "parse_members s = Some (ms, r)"
    then obtain q r0 where sk: "skip_ws s = q # r0"
      by (cases "skip_ws s") (auto simp: parse_members.simps [of s])
    with a have q: "q = cu CHR ''\"''"
      by (auto simp: parse_members.simps [of s] split: if_splits)
    from a sk q obtain k r1 where pc: "parse_chars r0 = Some (k, r1)"
      by (cases "parse_chars r0") (auto simp: parse_members.simps [of s])
    from a sk q pc obtain c1 r2 where sk1: "skip_ws r1 = c1 # r2"
      by (cases "skip_ws r1") (auto simp: parse_members.simps [of s])
    with a sk q pc have c1: "c1 = cu CHR '':''" "length r2 < length s"
      by (auto simp: parse_members.simps [of s] split: if_splits)
    from a sk q pc sk1 c1 obtain v r3 where pv: "parse_value r2 = Some (v, r3)"
      by (cases "parse_value r2") (auto simp: parse_members.simps [of s])
    have "\<forall>v r. parse_value r2 = Some (v, r) \<longrightarrow> length r < length r2"
      using 3(1) [OF sk q pc refl sk1] c1 by blast
    with pv have l3: "length r3 < length r2" by blast
    from a sk q pc sk1 c1 pv obtain c3 r4 where sk3: "skip_ws r3 = c3 # r4"
      by (cases "skip_ws r3") (auto simp: parse_members.simps [of s])
    then have l4: "length r4 < length r3" by (rule skip_ws_Cons_length)
    show "length r < length s"
    proof (cases "c3 = cu CHR ''}''")
      case True
      with a sk q pc sk1 c1 pv sk3 have "r = r4" by (simp add: parse_members.simps [of s])
      with l3 l4 c1(2) show ?thesis by simp
    next
      case False
      with a sk q pc sk1 c1 pv sk3 have c3: "c3 = cu CHR '',''" "length r4 < length s"
        by (auto simp: parse_members.simps [of s] split: if_splits)
      with a sk q pc sk1 c1 pv sk3 False obtain ns where "parse_members r4 = Some (ns, r)"
        by (auto simp: parse_members.simps [of s])
      moreover have "\<forall>ms r. parse_members r4 = Some (ms, r) \<longrightarrow> length r < length r4"
        using 3(2) [OF sk q pc refl sk1 _ pv refl sk3 False] c1 c3 by blast
      ultimately show ?thesis using c3(2) by force
    qed
  qed
qed


lemma parse_value_shorter: "parse_value s = Some (v, r) \<Longrightarrow> length r < length s"
  using parse_shorter(1) by blast

text \<open>The length tests of the definition never fail: the functions satisfy the equations
  without them.\<close>

lemma parse_elements_plain:
  "parse_elements s =
     (case parse_value s of
        None \<Rightarrow> None
      | Some (v, r) \<Rightarrow>
          (case skip_ws r of
             [] \<Rightarrow> None
           | c # r1 \<Rightarrow>
               if c = cu CHR '']'' then Some ([v], r1)
               else if c = cu CHR '','' then
                 map_option (\<lambda>(vs, rest). (v # vs, rest)) (parse_elements r1)
               else None))"
proof (cases "parse_value s")
  case None
  then show ?thesis by (simp add: parse_elements.simps [of s])
next
  case (Some p)
  obtain v r where p: "p = (v, r)" by force
  with Some have "parse_value s = Some (v, r)" by (simp only:)
  then have l: "length r < length s" by (rule parse_value_shorter)
  show ?thesis
  proof (cases "skip_ws r")
    case Nil
    with Some p show ?thesis by (simp add: parse_elements.simps [of s])
  next
    case (Cons c r1)
    then have "length r1 < length r" by (rule skip_ws_Cons_length)
    with l have "length r1 < length s" by simp
    with Some p Cons show ?thesis by (simp add: parse_elements.simps [of s])
  qed
qed

lemma parse_members_plain:
  "parse_members s =
     (case skip_ws s of
        [] \<Rightarrow> None
      | q # r \<Rightarrow>
          if q = cu CHR ''\"'' then
            (case parse_chars r of
               None \<Rightarrow> None
             | Some (k, r1) \<Rightarrow>
                 (case skip_ws r1 of
                    [] \<Rightarrow> None
                  | c1 # r2 \<Rightarrow>
                      if c1 = cu CHR '':'' then
                        (case parse_value r2 of
                           None \<Rightarrow> None
                         | Some (v, r3) \<Rightarrow>
                             (case skip_ws r3 of
                                [] \<Rightarrow> None
                              | c3 # r4 \<Rightarrow>
                                  if c3 = cu CHR ''}'' then Some ([(k, v)], r4)
                                  else if c3 = cu CHR '','' then
                                    map_option (\<lambda>(ms, rest). ((k, v) # ms, rest))
                                      (parse_members r4)
                                  else None))
                      else None))
          else None)"
proof -
  have 1: "length r2 < length s"
    if "skip_ws s = q # r" "parse_chars r = Some (k, r1)" "skip_ws r1 = c1 # r2"
    for q r k r1 c1 r2
    using skip_ws_Cons_length [OF that(1)] parse_chars_shorter [OF that(2)]
      skip_ws_Cons_length [OF that(3)] by simp
  have 2: "length r4 < length s"
    if "skip_ws s = q # r" "parse_chars r = Some (k, r1)" "skip_ws r1 = c1 # r2"
      "parse_value r2 = Some (v, r3)" "skip_ws r3 = c3 # r4"
    for q r k r1 c1 r2 v r3 c3 r4
    using 1 [OF that(1,2,3)] parse_value_shorter [OF that(4)] skip_ws_Cons_length [OF that(5)]
    by simp
  show ?thesis
    by (subst parse_members.simps)
       (auto simp del: parse_value.simps parse_members.simps
          split: list.splits option.splits dest: 1 2)
qed

subsection \<open>Reaching the response\<close>

lemma image_jpeg_supported: "js ''image/jpeg'' \<in> set supportedMimeTypes"
  by (simp add: supportedMimeTypes_def)

lemma analyze_reaches_response:
  assumes "file_bytes w uri = Some bytes"
    and "default_mimeType m \<in> set supportedMimeTypes"
    and "fetch w (build_request w (default_mimeType m) (base64_encode bytes)) = Some resp"
  shows "analyzeImageWithGemini w uri m =
           (fst (handle_response w resp),
            Fetch (build_request w (default_mimeType m) (base64_encode bytes))
              # snd (handle_response w resp))"
  using assms by (simp add: analyzeImageWithGemini_def Let_def split: prod.splits)

lemma world_answering_reaches:
  "analyzeImageWithGemini (world_answering resp) uri None =
     (fst (handle_response (world_answering resp) resp),
      Fetch (build_request (world_answering resp) (js ''image/jpeg'')
               (base64_encode [0xFF, 0xD8, 0xFF]))
        # snd (handle_response (world_answering resp) resp))"
proof -
  have d: "default_mimeType None = js ''image/jpeg''"
    by (simp add: default_mimeType_def)
  have "analyzeImageWithGemini (world_answering resp) uri None =
     (fst (handle_response (world_answering resp) resp),
      Fetch (build_request (world_answering resp) (default_mimeType None)
               (base64_encode [0xFF, 0xD8, 0xFF]))
        # snd (handle_response (world_answering resp) resp))"
    by (rule analyze_reaches_response)
       (simp_all add: world_answering_def d image_jpeg_supported)
  then show ?thesis
    by (simp add: d)
qed

text \<open>
  C10. When the call succeeds and the first candidate's first text part is present but
  is the empty string, the analyzer fails with EmptyResponse, as for an absent part, and
  not with MalformedPayload.
\<close>

theorem empty_text_is_EmptyResponse:
  assumes "file_bytes w uri = Some bytes"
    and "default_mimeType m \<in> set supportedMimeTypes"
    and "fetch w (build_request w (default_mimeType m) (base64_encode bytes)) = Some resp"
    and "ok resp"
    and "JSON_parse (body_text resp) = Some data"
    and "reply_text data = Some (JString [])"
  shows "fst (analyzeImageWithGemini w uri m) = Inl EmptyResponse
         \<and> fst (analyzeImageWithGemini w uri m) \<noteq> Inl MalformedPayload"
  using assms by (simp add: analyze_reaches_response handle_response_def)

theorem empty_text_is_EmptyResponse_witness:
  "reply_text
     (JObject [(js ''candidates'',
        JArray [JObject [(js ''content'',
          JObject [(js ''parts'', JArray [JObject [(js ''text'', JString [])]]),
                   (js ''role'', JString (js ''model''))])]])])
   = Some (JString [])
   \<and> fst (analyzeImageWithGemini
            (world_answering (http_response True (js ''OK'') (envelope [])))
            (js ''file:///meal.jpg'') None)
     = Inl EmptyResponse"
proof -
  let ?resp = "http_response True (js ''OK'') (envelope [])"
  let ?w = "world_answering ?resp"
  let ?data = "JObject [(js ''candidates'',
        JArray [JObject [(js ''content'',
          JObject [(js ''parts'', JArray [JObject [(js ''text'', JString [])]]),
                   (js ''role'', JString (js ''model''))])]])]"
  have h1: "file_bytes ?w (js ''file:///meal.jpg'') = Some [0xFF, 0xD8, 0xFF]"
    by (simp add: world_answering_def)
  have h2: "default_mimeType None \<in> set supportedMimeTypes"
    by (simp add: default_mimeType_def supportedMimeTypes_def)
  have h3: "fetch ?w (build_request ?w (default_mimeType None)
              (base64_encode [0xFF, 0xD8, 0xFF])) = Some ?resp"
    by (simp add: world_answering_def)
  have h4: "ok ?resp"
    by (simp add: http_response_def)
  have h5: "JSON_parse (body_text ?resp) = Some ?data"
    by code_simp
  have h6: "reply_text ?data = Some (JString [])"
    by code_simp
  from empty_text_is_EmptyResponse [OF h1 h2 h3 h4 h5 h6] h6 show ?thesis
    by simp
qed

subsection \<open>Reading the response\<close>

lemma member_opt_member: "member v name = Some x \<Longrightarrow> opt_member (Some v) name = Some x"
  by (cases v) (simp_all add: member_def opt_member_def)

lemma opt_member_Some: "opt_member (Some v) name = member v name"
  by (cases v) (simp_all add: member_def opt_member_def)

lemma opt_member_None: "opt_member None name = None"
  by (simp add: opt_member_def)

lemma opt_first_None: "opt_first None = None"
  by (simp add: opt_first_def)

lemma opt_first_array: "opt_first (Some (JArray xs)) = (case xs of [] \<Rightarrow> None | x # _ \<Rightarrow> Some x)"
  by (simp add: opt_first_def first_of_def)

lemma reply_text_first_part:
  assumes "member data (js ''candidates'') = Some (JArray (c # cs))"
    and "member c (js ''content'') = Some ct"
    and "member ct (js ''parts'') = Some (JArray (p # ps))"
  shows "reply_text data = member p (js ''text'')"
  using assms
  by (simp add: reply_text_def member_opt_member opt_first_array opt_member_Some)

lemma reply_text_no_candidates:
  assumes "member data (js ''candidates'') = None \<or> member data (js ''candidates'') = Some (JArray [])"
  shows "reply_text data = None"
proof -
  have "opt_first (opt_member (Some data) (js ''candidates'')) = None"
    using assms by (auto simp: opt_member_Some opt_first_array opt_first_None)
  then show ?thesis
    by (simp add: reply_text_def opt_member_None opt_first_None)
qed

lemma reply_text_envelope_value: "reply_text (envelope_value t) = Some t"
proof -
  have "reply_text (envelope_value t) = member (JObject [(js ''text'', t)]) (js ''text'')"
    by (rule reply_text_first_part [where c = "envelope_candidate t" and cs = "[]"
          and ct = "envelope_content t" and ps = "[]"])
       (simp_all add: envelope_value_def envelope_candidate_def envelope_content_def member_def)
  then show ?thesis by (simp add: member_def)
qed

lemma apple_text_parses: "JSON_parse (jsonString apple_text) = Some apple_meal"
  by code_simp

lemma apple_text_truthy: "truthy (JString apple_text)"
  by (simp add: apple_text_def js_def)

text \<open>
  C1. When the call succeeds and the extracted text part is exactly
  \<open>{"name":"Apple","description":"A fruit","calories":95,"protein_g":0,"carbs_g":25,"fat_g":0}\<close>,
  the analyzer returns the record with those values: name Apple, description A fruit,
  calories 95, protein_g 0, carbs_g 25, fat_g 0.
\<close>

theorem apple_reply_returned:
  assumes "file_bytes w uri = Some bytes"
    and "default_mimeType m \<in> set supportedMimeTypes"
    and "fetch w (build_request w (default_mimeType m) (base64_encode bytes)) = Some resp"
    and "ok resp"
    and "JSON_parse (body_text resp) = Some data"
    and "reply_text data = Some (JString apple_text)"
  shows "fst (analyzeImageWithGemini w uri m) =
           Inr (JObject
                  [(js ''name'', JString (js ''Apple'')),
                   (js ''description'', JString (js ''A fruit'')),
                   (js ''calories'', JNumber False 95 0),
                   (js ''protein_g'', JNumber False 0 0),
                   (js ''carbs_g'', JNumber False 25 0),
                   (js ''fat_g'', JNumber False 0 0)])"
  using assms apple_text_truthy
  by (simp add: analyze_reaches_response handle_response_def parse_reply_def
        apple_text_parses apple_meal_def)

theorem apple_reply_returned_witness:
  "reply_text (envelope_value (JString apple_text)) = Some (JString apple_text)
   \<and> fst (analyzeImageWithGemini
            (world_answering (http_response True (js ''OK'') (envelope apple_text)))
            (js ''file:///meal.jpg'') None)
     = Inr (JObject
              [(js ''name'', JString (js ''Apple'')),
               (js ''description'', JString (js ''A fruit'')),
               (js ''calories'', JNumber False 95 0),
               (js ''protein_g'', JNumber False 0 0),
               (js ''carbs_g'', JNumber False 25 0),
               (js ''fat_g'', JNumber False 0 0)])"
proof -
  let ?resp = "http_response True (js ''OK'') (envelope apple_text)"
  let ?w = "world_answering ?resp"
  have h1: "file_bytes ?w (js ''file:///meal.jpg'') = Some [0xFF, 0xD8, 0xFF]"
    by (simp add: world_answering_def)
  have h2: "default_mimeType None \<in> set supportedMimeTypes"
    by (simp add: default_mimeType_def supportedMimeTypes_def)
  have h3: "fetch ?w (build_request ?w (default_mimeType None)
              (base64_encode [0xFF, 0xD8, 0xFF])) = Some ?resp"
    by (simp add: world_answering_def)
  have h4: "ok ?resp"
    by (simp add: http_response_def)
  have h5: "JSON_parse (body_text ?resp) = Some (envelope_value (JString apple_text))"
    by code_simp
  have h6: "reply_text (envelope_value (JString apple_text)) = Some (JString apple_text)"
    by (rule reply_text_envelope_value)
  from apple_reply_returned [OF h1 h2 h3 h4 h5 h6] h6 show ?thesis
    by simp
qed

text \<open>
  C4, as the code has it. For a media type outside the allow-list the analyzer submits
  no request and fails; the failure is UnsupportedFormat when the image file could be
  read, and the error of the read otherwise, because the file is read before the media
  type is checked.
\<close>

theorem unsupported_type_no_request:
  assumes "default_mimeType m \<notin> set supportedMimeTypes"
  shows "snd (analyzeImageWithGemini w uri m) = []
         \<and> fst (analyzeImageWithGemini w uri m) =
             Inl (if file_bytes w uri = None then FileError
                  else UnsupportedFormat (default_mimeType m))"
  using assms by (simp add: analyzeImageWithGemini_def Let_def split: option.splits)

theorem unsupported_type_no_request_witness:
  "default_mimeType (Some (js ''image/gif'')) \<notin> set supportedMimeTypes
   \<and> analyzeImageWithGemini (world_answering (http_response True (js ''OK'') (envelope apple_text)))
         (js ''file:///meal.gif'') (Some (js ''image/gif''))
       = (Inl (UnsupportedFormat (js ''image/gif'')), [])"
proof -
  let ?w = "world_answering (http_response True (js ''OK'') (envelope apple_text))"
  have h: "default_mimeType (Some (js ''image/gif'')) \<notin> set supportedMimeTypes"
    by (simp add: default_mimeType_def supportedMimeTypes_def js_def cu_def)
  have f: "file_bytes ?w (js ''file:///meal.gif'') \<noteq> None"
    by (simp add: world_answering_def)
  have d: "default_mimeType (Some (js ''image/gif'')) = js ''image/gif''"
    by (simp add: default_mimeType_def)
  from unsupported_type_no_request [OF h, of ?w "js ''file:///meal.gif''"] h f d
  show ?thesis
    by (simp add: prod_eq_iff)
qed

text \<open>
  C4 as the spec states it fails: with an image that cannot be read, a media type outside
  the allow-list does not give UnsupportedFormat.
\<close>

theorem unsupported_type_counterexample:
  "js ''image/gif'' \<notin> set supportedMimeTypes
   \<and> fst (analyzeImageWithGemini world_without_file (js ''file:///missing.gif'')
            (Some (js ''image/gif'')))
     = Inl FileError
   \<and> fst (analyzeImageWithGemini world_without_file (js ''file:///missing.gif'')
            (Some (js ''image/gif'')))
     \<noteq> Inl (UnsupportedFormat (js ''image/gif''))"
  by (simp add: analyzeImageWithGemini_def world_without_file_def supportedMimeTypes_def
        js_def cu_def)

text \<open>
  C7, as the code has it. For a success response whose body is JSON: the text the
  analyzer reads is the \<open>text\<close> of the first part of the first candidate's content; when
  no such text is found the analyzer fails with EmptyResponse, having submitted its one
  request; a response without candidates is such a case.
\<close>

theorem success_without_text_is_EmptyResponse:
  assumes "file_bytes w uri = Some bytes"
    and "default_mimeType m \<in> set supportedMimeTypes"
    and "fetch w (build_request w (default_mimeType m) (base64_encode bytes)) = Some resp"
    and "ok resp"
    and "JSON_parse (body_text resp) = Some data"
  shows "(member data (js ''candidates'') = Some (JArray (c # cs))
            \<longrightarrow> member c (js ''content'') = Some ct
            \<longrightarrow> member ct (js ''parts'') = Some (JArray (p # ps))
            \<longrightarrow> reply_text data = member p (js ''text''))
         \<and> (reply_text data = None
            \<longrightarrow> analyzeImageWithGemini w uri m =
                  (Inl EmptyResponse,
                   [Fetch (build_request w (default_mimeType m) (base64_encode bytes))]))
         \<and> (member data (js ''candidates'') = None
              \<or> member data (js ''candidates'') = Some (JArray [])
            \<longrightarrow> analyzeImageWithGemini w uri m =
                  (Inl EmptyResponse,
                   [Fetch (build_request w (default_mimeType m) (base64_encode bytes))]))"
proof -
  have absent: "analyzeImageWithGemini w uri m =
      (Inl EmptyResponse, [Fetch (build_request w (default_mimeType m) (base64_encode bytes))])"
    if "reply_text data = None"
    using assms that by (simp add: analyze_reaches_response handle_response_def)
  show ?thesis
  proof (intro conjI impI)
    assume "member data (js ''candidates'') = Some (JArray (c # cs))"
      and "member c (js ''content'') = Some ct"
      and "member ct (js ''parts'') = Some (JArray (p # ps))"
    then show "reply_text data = member p (js ''text'')"
      by (rule reply_text_first_part)
  next
    assume "reply_text data = None"
    then show "analyzeImageWithGemini w uri m =
      (Inl EmptyResponse, [Fetch (build_request w (default_mimeType m) (base64_encode bytes))])"
      by (rule absent)
  next
    assume "member data (js ''candidates'') = None
              \<or> member data (js ''candidates'') = Some (JArray [])"
    then have "reply_text data = None"
      by (rule reply_text_no_candidates)
    then show "analyzeImageWithGemini w uri m =
      (Inl EmptyResponse, [Fetch (build_request w (default_mimeType m) (base64_encode bytes))])"
      by (rule absent)
  qed
qed

theorem success_without_text_is_EmptyResponse_witness:
  "analyzeImageWithGemini
     (world_answering (http_response True (js ''OK'') (js ''{\"candidates\":[]}'')))
     (js ''file:///meal.jpg'') None
   = (Inl EmptyResponse,
      [Fetch (build_request
                (world_answering (http_response True (js ''OK'') (js ''{\"candidates\":[]}'')))
                (js ''image/jpeg'') (base64_encode [0xFF, 0xD8, 0xFF]))])
   \<and> reply_text (envelope_value (JString apple_text)) = Some (JString apple_text)"
proof -
  let ?resp = "http_response True (js ''OK'') (js ''{\"candidates\":[]}'')"
  let ?w = "world_answering ?resp"
  let ?data = "JObject [(js ''candidates'', JArray [])]"
  have h1: "file_bytes ?w (js ''file:///meal.jpg'') = Some [0xFF, 0xD8, 0xFF]"
    by (simp add: world_answering_def)
  have h2: "default_mimeType None \<in> set supportedMimeTypes"
    by (simp add: default_mimeType_def supportedMimeTypes_def)
  have h3: "fetch ?w (build_request ?w (default_mimeType None)
              (base64_encode [0xFF, 0xD8, 0xFF])) = Some ?resp"
    by (simp add: world_answering_def)
  have h4: "ok ?resp"
    by (simp add: http_response_def)
  have h5: "JSON_parse (body_text ?resp) = Some ?data"
    by code_simp
  have h6: "member ?data (js ''candidates'') = Some (JArray [])"
    by (simp add: member_def)
  have d: "default_mimeType None = js ''image/jpeg''"
    by (simp add: default_mimeType_def)
  let ?resp2 = "http_response True (js ''OK'') (envelope apple_text)"
  let ?w2 = "world_answering ?resp2"
  have k1: "file_bytes ?w2 (js ''file:///meal.jpg'') = Some [0xFF, 0xD8, 0xFF]"
    by (simp add: world_answering_def)
  have k3: "fetch ?w2 (build_request ?w2 (default_mimeType None)
              (base64_encode [0xFF, 0xD8, 0xFF])) = Some ?resp2"
    by (simp add: world_answering_def)
  have k4: "ok ?resp2"
    by (simp add: http_response_def)
  have k5: "JSON_parse (body_text ?resp2) = Some (envelope_value (JString apple_text))"
    by code_simp
  have m1: "member (envelope_value (JString apple_text)) (js ''candidates'')
              = Some (JArray [envelope_candidate (JString apple_text)])"
    by (simp add: envelope_value_def member_def)
  have m2: "member (envelope_candidate (JString apple_text)) (js ''content'')
              = Some (envelope_content (JString apple_text))"
    by (simp add: envelope_candidate_def member_def)
  have m3: "member (envelope_content (JString apple_text)) (js ''parts'')
              = Some (JArray [JObject [(js ''text'', JString apple_text)]])"
    by (simp add: envelope_content_def member_def)
  have m4: "member (JObject [(js ''text'', JString apple_text)]) (js ''text'')
              = Some (JString apple_text)"
    by (simp add: member_def)
  from success_without_text_is_EmptyResponse [OF h1 h2 h3 h4 h5, of JNull "[]" JNull JNull "[]"] h6 d
    success_without_text_is_EmptyResponse [OF k1 h2 k3 k4 k5,
      of "envelope_candidate (JString apple_text)" "[]" "envelope_content (JString apple_text)"
         "JObject [(js ''text'', JString apple_text)]" "[]"] m1 m2 m3 m4
  show ?thesis
    by simp
qed

text \<open>
  C7 as the spec states it fails: a success response whose body is not JSON has no text
  part, and the analyzer fails with the SyntaxError of \<open>response.json()\<close>.
\<close>

theorem success_without_text_counterexample:
  "fst (analyzeImageWithGemini
          (world_answering (http_response True (js ''OK'') (js ''<html>busy</html>'')))
          (js ''file:///meal.jpg'') None)
   = Inl SyntaxError"
proof -
  have "handle_response w (http_response True (js ''OK'') (js ''<html>busy</html>''))
          = (Inl SyntaxError, [])" for w
    by code_simp
  then show ?thesis
    by (simp add: world_answering_reaches)
qed

subsection \<open>Error responses\<close>

text \<open>
  C5, as the code has it. For a non-success response whose body is a JSON value other
  than \<open>null\<close>: when \<open>error.message\<close> is a non-empty string the analyzer fails with
  UpstreamError carrying exactly that string; when it is absent or falsy (\<open>null\<close>,
  \<open>false\<close>, zero, the empty string) it fails with UpstreamError carrying the status
  text; when it is any other truthy value it fails with UpstreamError carrying the text
  the value converts to, or with the TypeError of the conversion when that throws.
\<close>

theorem error_response_is_UpstreamError:
  assumes "file_bytes w uri = Some bytes"
    and "default_mimeType m \<in> set supportedMimeTypes"
    and "fetch w (build_request w (default_mimeType m) (base64_encode bytes)) = Some resp"
    and "\<not> ok resp"
    and "JSON_parse (body_text resp) = Some errorData"
    and "errorData \<noteq> JNull"
  shows "(upstream_message errorData = Some (JString t) \<longrightarrow> t \<noteq> []
            \<longrightarrow> analyzeImageWithGemini w uri m =
                  (Inl (UpstreamError t),
                   [Fetch (build_request w (default_mimeType m) (base64_encode bytes))]))
         \<and> (upstream_message errorData = None
              \<or> (\<exists>v. upstream_message errorData = Some v \<and> \<not> truthy v)
            \<longrightarrow> analyzeImageWithGemini w uri m =
                  (Inl (UpstreamError (statusText resp)),
                   [Fetch (build_request w (default_mimeType m) (base64_encode bytes))]))
         \<and> (upstream_message errorData = Some v \<longrightarrow> truthy v
            \<longrightarrow> ToString (number_text w) v = Some t
            \<longrightarrow> analyzeImageWithGemini w uri m =
                  (Inl (UpstreamError t),
                   [Fetch (build_request w (default_mimeType m) (base64_encode bytes))]))
         \<and> (upstream_message errorData = Some v \<longrightarrow> truthy v
            \<longrightarrow> ToString (number_text w) v = None
            \<longrightarrow> analyzeImageWithGemini w uri m =
                  (Inl TypeError,
                   [Fetch (build_request w (default_mimeType m) (base64_encode bytes))]))"
  using assms
  by (auto simp: analyze_reaches_response handle_response_def error_text_def)

theorem error_response_is_UpstreamError_witness:
  "fst (analyzeImageWithGemini
          (world_answering (http_response False (js ''Too Many Requests'')
             (js ''{\"error\":{\"code\":429,\"message\":\"quota exceeded\"}}'')))
          (js ''file:///meal.jpg'') None)
   = Inl (UpstreamError (js ''quota exceeded''))
   \<and> fst (analyzeImageWithGemini
            (world_answering (http_response False (js ''Too Many Requests'')
               (js ''{\"error\":{}}'')))
            (js ''file:///meal.jpg'') None)
     = Inl (UpstreamError (js ''Too Many Requests''))
   \<and> fst (analyzeImageWithGemini
            (world_answering (http_response False (js ''Bad Request'')
               (js ''{\"error\":{\"message\":true}}'')))
            (js ''file:///meal.jpg'') None)
     = Inl (UpstreamError (js ''true''))
   \<and> fst (analyzeImageWithGemini
            (world_answering (http_response False (js ''Bad Request'')
               (js ''{\"error\":{\"message\":{\"toString\":1}}}'')))
            (js ''file:///meal.jpg'') None)
     = Inl TypeError"
proof -
  have h2: "default_mimeType None \<in> set supportedMimeTypes"
    by (simp add: default_mimeType_def supportedMimeTypes_def)
  have f: "file_bytes (world_answering r) (js ''file:///meal.jpg'') = Some [0xFF, 0xD8, 0xFF]"
    for r
    by (simp add: world_answering_def)
  have g: "fetch (world_answering r) (build_request (world_answering r) (default_mimeType None)
              (base64_encode [0xFF, 0xD8, 0xFF])) = Some r" for r
    by (simp add: world_answering_def)
  have n: "number_text (world_answering r) = (\<lambda>neg m e. js ''0'')" for r
    by (simp add: world_answering_def)
  let ?r1 = "http_response False (js ''Too Many Requests'')
        (js ''{\"error\":{\"code\":429,\"message\":\"quota exceeded\"}}'')"
  let ?d1 = "JObject [(js ''error'',
      JObject [(js ''code'', JNumber False 429 0),
               (js ''message'', JString (js ''quota exceeded''))])]"
  have a4: "\<not> ok ?r1"
    by (simp add: http_response_def)
  have a5: "JSON_parse (body_text ?r1) = Some ?d1"
    by code_simp
  have a6: "?d1 \<noteq> JNull"
    by simp
  have a7: "upstream_message ?d1 = Some (JString (js ''quota exceeded''))"
    by code_simp
  have a8: "js ''quota exceeded'' \<noteq> []"
    by (simp add: js_def)
  let ?r2 = "http_response False (js ''Too Many Requests'') (js ''{\"error\":{}}'')"
  let ?d2 = "JObject [(js ''error'', JObject [])]"
  have b4: "\<not> ok ?r2"
    by (simp add: http_response_def)
  have b5: "JSON_parse (body_text ?r2) = Some ?d2"
    by code_simp
  have b6: "?d2 \<noteq> JNull"
    by simp
  have b7: "upstream_message ?d2 = None"
    by code_simp
  have b8: "statusText ?r2 = js ''Too Many Requests''"
    by (simp add: http_response_def)
  let ?r3 = "http_response False (js ''Bad Request'') (js ''{\"error\":{\"message\":true}}'')"
  let ?d3 = "JObject [(js ''error'', JObject [(js ''message'', JBool True)])]"
  have c4: "\<not> ok ?r3"
    by (simp add: http_response_def)
  have c5: "JSON_parse (body_text ?r3) = Some ?d3"
    by code_simp
  have c6: "?d3 \<noteq> JNull"
    by simp
  have c7: "upstream_message ?d3 = Some (JBool True)"
    by code_simp
  have c8: "truthy (JBool True)"
    by simp
  have c9: "ToString (number_text (world_answering ?r3)) (JBool True) = Some (js ''true'')"
    by simp
  let ?r4 = "http_response False (js ''Bad Request'')
        (js ''{\"error\":{\"message\":{\"toString\":1}}}'')"
  let ?v4 = "JObject [(js ''toString'', JNumber False 1 0)]"
  let ?d4 = "JObject [(js ''error'', JObject [(js ''message'', ?v4)])]"
  have d4: "\<not> ok ?r4"
    by (simp add: http_response_def)
  have d5: "JSON_parse (body_text ?r4) = Some ?d4"
    by code_simp
  have d6: "?d4 \<noteq> JNull"
    by simp
  have d7: "upstream_message ?d4 = Some ?v4"
    by code_simp
  have d8: "truthy ?v4"
    by simp
  have d9: "ToString (number_text (world_answering ?r4)) ?v4 = None"
    by simp
  from error_response_is_UpstreamError [OF f h2 g a4 a5 a6, of "js ''quota exceeded''" JNull]
    a7 a8
  have 1: "fst (analyzeImageWithGemini (world_answering ?r1) (js ''file:///meal.jpg'') None)
      = Inl (UpstreamError (js ''quota exceeded''))"
    by simp
  from error_response_is_UpstreamError [OF f h2 g b4 b5 b6, of "[]" JNull] b7 b8
  have 2: "fst (analyzeImageWithGemini (world_answering ?r2) (js ''file:///meal.jpg'') None)
      = Inl (UpstreamError (js ''Too Many Requests''))"
    by simp
  from error_response_is_UpstreamError [OF f h2 g c4 c5 c6, of "js ''true''" "JBool True"]
    c7 c8 c9
  have 3: "fst (analyzeImageWithGemini (world_answering ?r3) (js ''file:///meal.jpg'') None)
      = Inl (UpstreamError (js ''true''))"
    by simp
  from error_response_is_UpstreamError [OF f h2 g d4 d5 d6, of "[]" ?v4] d7 d8 d9
  have 4: "fst (analyzeImageWithGemini (world_answering ?r4) (js ''file:///meal.jpg'') None)
      = Inl TypeError"
    by simp
  from 1 2 3 4 show ?thesis
    by (simp only: simp_thms)
qed

text \<open>
  C5 as the spec states it fails. An error response whose body is not JSON gives the
  SyntaxError of \<open>response.json()\<close>, not UpstreamError with the status text; and a
  message that is present but empty is not carried, the status text is.
\<close>

theorem error_response_counterexample:
  "fst (analyzeImageWithGemini
          (world_answering (http_response False (js ''Bad Gateway'')
             (js ''<html>Bad Gateway</html>'')))
          (js ''file:///meal.jpg'') None)
   = Inl SyntaxError
   \<and> fst (analyzeImageWithGemini
            (world_answering (http_response False (js ''Bad Request'')
               (js ''{\"error\":{\"message\":\"\"}}'')))
            (js ''file:///meal.jpg'') None)
     = Inl (UpstreamError (js ''Bad Request''))"
proof -
  have "handle_response w (http_response False (js ''Bad Gateway'')
          (js ''<html>Bad Gateway</html>'')) = (Inl SyntaxError, [])" for w
    by code_simp
  moreover have "handle_response w (http_response False (js ''Bad Request'')
          (js ''{\"error\":{\"message\":\"\"}}'')) = (Inl (UpstreamError (js ''Bad Request'')), [])"
    for w
    by code_simp
  ultimately show ?thesis
    by (simp add: world_answering_reaches)
qed

subsection \<open>The request\<close>

lemma fetches_parse_reply: "fetches (snd (parse_reply text)) = []"
  by (simp add: parse_reply_def split: option.splits)

lemma fetches_handle_response: "fetches (snd (handle_response w resp)) = []"
  by (simp add: handle_response_def fetches_parse_reply split: option.splits sum.splits)

lemma prompt_structure_value:
  "prompt_structure =
     Some (JObject
             [(js ''meal_name'', JString (js ''...'')),
              (js ''description'', JString (js ''...'')),
              (js ''calories'', JNumber False 0 0),
              (js ''protein_g'', JNumber False 0 0),
              (js ''carbs_g'', JNumber False 0 0),
              (js ''fat_g'', JNumber False 0 0)])"
  by code_simp

text \<open>
  C6, as the code has it. A call submits at most one request, and submits it exactly when
  the file could be read and the media type is allowed. Its body has one content (a single
  turn) with two parts: the fixed instruction, and the inline data with the declared media
  type and the base64 text of the image. The structure the instruction asks for has the
  keys meal_name, description, calories, protein_g, carbs_g, fat_g.
\<close>

theorem request_submitted:
  "fetches (snd (analyzeImageWithGemini w uri m)) =
     (case file_bytes w uri of
        None \<Rightarrow> []
      | Some bytes \<Rightarrow>
          if default_mimeType m \<in> set supportedMimeTypes then
            [\<lparr> url = API_URL w,
               http_method = js ''POST'',
               headers = [(js ''Content-Type'', js ''application/json'')],
               body =
                 JObject [(js ''contents'',
                   JArray [JObject [(js ''parts'',
                     JArray
                       [JObject [(js ''text'', JString MealRecognitionPrompt)],
                        JObject [(js ''inline_data'',
                          JObject [(js ''mime_type'', JString (default_mimeType m)),
                                   (js ''data'', JString (base64_encode bytes))])]])]])] \<rparr>]
          else [])
   \<and> prompt_keys =
       [js ''meal_name'', js ''description'', js ''calories'', js ''protein_g'',
        js ''carbs_g'', js ''fat_g'']"
proof -
  have keys: "prompt_keys =
       [js ''meal_name'', js ''description'', js ''calories'', js ''protein_g'',
        js ''carbs_g'', js ''fat_g'']"
    by (simp add: prompt_keys_def prompt_structure_value)
  have reqs: "fetches (snd (analyzeImageWithGemini w uri m)) =
     (case file_bytes w uri of
        None \<Rightarrow> []
      | Some bytes \<Rightarrow>
          if default_mimeType m \<in> set supportedMimeTypes then
            [build_request w (default_mimeType m) (base64_encode bytes)]
          else [])"
    by (simp add: analyzeImageWithGemini_def Let_def fetches_handle_response
          split: option.splits prod.splits)
       (metis fetches_handle_response snd_conv)
  show ?thesis
    using keys reqs by (simp add: build_request_def split: option.splits)
qed

text \<open>
  C6 as the spec states it fails: the instruction does not ask for a key \<open>name\<close>; its
  first key is \<open>meal_name\<close>.
\<close>

theorem request_keys_counterexample:
  "prompt_keys \<noteq>
     [js ''name'', js ''description'', js ''calories'', js ''protein_g'', js ''carbs_g'',
      js ''fat_g'']
   \<and> js ''name'' \<notin> set prompt_keys"
  by (simp add: prompt_keys_def prompt_structure_value js_def cu_def)

subsection \<open>Extraction of the payload\<close>


lemma takeWhile_until: "c \<notin> set xs \<Longrightarrow> takeWhile (\<lambda>x. x \<noteq> c) (xs @ c # ys) = xs"
  by (induction xs) auto

lemma indexOf_first: "c \<notin> set before \<Longrightarrow> indexOf (before @ c # rest) c = int (length before)"
  by (simp add: indexOf_def takeWhile_until)

lemma lastIndexOf_last:
  "c \<notin> set after \<Longrightarrow> lastIndexOf (front @ c # after) c = int (length front)"
  using takeWhile_until [of c "rev after" "rev front"]
  by (simp add: lastIndexOf_def)

lemma substring_take_drop:
  "i \<le> j \<Longrightarrow> j \<le> length s \<Longrightarrow> substring s (int i) (int j) = take (j - i) (drop i s)"
  by (simp add: substring_def Let_def min_def max_def nat_diff_distrib')

lemma brace_slice_enclosed:
  assumes "cu CHR ''{'' \<notin> set before" and "cu CHR ''}'' \<notin> set after"
  shows "brace_slice (before @ cu CHR ''{'' # inner @ cu CHR ''}'' # after)
           = cu CHR ''{'' # inner @ [cu CHR ''}'']"
proof -
  let ?s = "before @ cu CHR ''{'' # inner @ cu CHR ''}'' # after"
  have i: "indexOf ?s (cu CHR ''{'') = int (length before)"
    using assms(1) by (rule indexOf_first)
  have "lastIndexOf ((before @ cu CHR ''{'' # inner) @ cu CHR ''}'' # after) (cu CHR ''}'')
          = int (length (before @ cu CHR ''{'' # inner))"
    using assms(2) by (rule lastIndexOf_last)
  then have j: "lastIndexOf ?s (cu CHR ''}'') + 1 = int (length before + length inner + 2)"
    by simp
  have "substring ?s (int (length before)) (int (length before + length inner + 2))
          = take (length before + length inner + 2 - length before) (drop (length before) ?s)"
    by (rule substring_take_drop) simp_all
  then show ?thesis
    by (simp add: brace_slice_def Let_def i j)
qed

lemma set_substring: "set (substring s a b) \<subseteq> set s"
  by (auto simp: substring_def Let_def dest: in_set_takeD in_set_dropD)

lemma substring_swapped_prefix:
  assumes "0 \<le> b" and "b \<le> int i" and "i \<le> length s"
  shows "set (substring s (int i) b) \<subseteq> set (take i s)"
proof -
  have "substring s (int i) b = take (i - nat b) (drop (nat b) s)"
    using assms by (simp add: substring_def Let_def min_def max_def) (auto simp: nat_diff_distrib)
  also have "set \<dots> \<subseteq> set (take i s)"
  proof
    fix x assume "x \<in> set (take (i - nat b) (drop (nat b) s))"
    then obtain k where "k < i - nat b" "k < length (drop (nat b) s)"
      "x = drop (nat b) s ! k"
      by (auto simp: in_set_conv_nth)
    then have "x = s ! (nat b + k)" "nat b + k < i" "nat b + k < length s"
      by auto
    then show "x \<in> set (take i s)"
      by (auto simp: in_set_conv_nth intro!: exI [of _ "nat b + k"])
  qed
  finally show ?thesis .
qed


lemma braces_differ: "cu CHR ''{'' \<noteq> cu CHR ''}''"
  by (simp add: cu_def)

lemma lastIndexOf_bounds: "- 1 \<le> lastIndexOf s c \<and> lastIndexOf s c < int (length s)"
proof (cases "c \<in> set s")
  case False
  then show ?thesis by (simp add: lastIndexOf_def)
next
  case True
  then obtain front after where "s = front @ c # after" "c \<notin> set after"
    by (meson split_list_last)
  then show ?thesis
    by (simp add: lastIndexOf_last)
qed

lemma brace_slice_has_open_brace:
  assumes "cu CHR ''{'' \<in> set (brace_slice s)"
  shows "\<exists>inner. encloses s inner"
proof -
  let ?lb = "cu CHR ''{''" and ?rb = "cu CHR ''}''"
  have "set (brace_slice s) \<subseteq> set s"
    by (simp add: brace_slice_def Let_def set_substring)
  with assms have "?lb \<in> set s" by auto
  then obtain before rest where s: "s = before @ ?lb # rest" and nb: "?lb \<notin> set before"
    by (meson split_list_first)
  have i: "indexOf s ?lb = int (length before)"
    unfolding s using nb by (rule indexOf_first)
  show ?thesis
  proof (cases "?rb \<in> set rest")
    case True
    then obtain inner after where "rest = inner @ ?rb # after" "?rb \<notin> set after"
      by (meson split_list_last)
    with s nb show ?thesis
      unfolding encloses_def by blast
  next
    case False
    have e: "lastIndexOf s ?rb + 1 \<le> int (length before)"
    proof (cases "?rb \<in> set before")
      case False
      with \<open>?rb \<notin> set rest\<close> braces_differ have "?rb \<notin> set s"
        by (auto simp: s)
      then show ?thesis by (simp add: lastIndexOf_def)
    next
      case True
      then obtain front after where b: "before = front @ ?rb # after" "?rb \<notin> set after"
        by (meson split_list_last)
      have "?rb \<notin> set (after @ ?lb # rest)"
        using b(2) \<open>?rb \<notin> set rest\<close> braces_differ by auto
      then have "lastIndexOf (front @ ?rb # (after @ ?lb # rest)) ?rb = int (length front)"
        by (rule lastIndexOf_last)
      then show ?thesis
        by (simp add: s b(1))
    qed
    have "0 \<le> lastIndexOf s ?rb + 1"
      using lastIndexOf_bounds [of s ?rb] by simp
    moreover have "length before \<le> length s"
      by (simp add: s)
    ultimately have "set (substring s (int (length before)) (lastIndexOf s ?rb + 1))
                       \<subseteq> set (take (length before) s)"
      using e by (intro substring_swapped_prefix)
    then have "set (brace_slice s) \<subseteq> set (take (length before) s)"
      by (simp add: brace_slice_def Let_def i)
    also have "take (length before) s = before"
      by (simp add: s)
    finally show ?thesis
      using assms nb by auto
  qed
qed

lemma set_skip_ws: "set (skip_ws s) \<subseteq> set s"
  by (auto simp: skip_ws_def dest: set_dropWhileD)

lemma parse_number_is_number: "parse_number s = Some (v, r) \<Longrightarrow> \<exists>neg m e. v = JNumber neg m e"
  by (auto simp: parse_number_def split: option.splits prod.splits)

lemma parse_value_object_starts:
  assumes "parse_value s = Some (JObject ps, r)"
  shows "\<exists>rest. skip_ws s = cu CHR ''{'' # rest"
proof (cases "skip_ws s")
  case Nil
  with assms show ?thesis by (simp add: parse_value.simps [of s])
next
  case (Cons c rest)
  show ?thesis
  proof (cases "c = cu CHR ''{''")
    case True
    with Cons show ?thesis by simp
  next
    case False
    with assms Cons show ?thesis
      by (auto simp: parse_value.simps [of s] make_object_def
           split: list.splits if_splits dest: parse_number_is_number)
  qed
qed

lemma JSON_parse_object_has_open_brace:
  assumes "JSON_parse t = Some (JObject ps)"
  shows "cu CHR ''{'' \<in> set t"
proof -
  from assms obtain r where "parse_value t = Some (JObject ps, r)"
    by (auto simp: JSON_parse_def split: option.splits prod.splits if_splits)
  then obtain rest where "skip_ws t = cu CHR ''{'' # rest"
    using parse_value_object_starts by blast
  then have "cu CHR ''{'' \<in> set (skip_ws t)" by simp
  then show ?thesis using set_skip_ws by blast
qed


lemma braces_not_space: "\<not> is_js_space (cu CHR ''{'')" "\<not> is_js_space (cu CHR ''}'')"
  by (simp_all add: is_js_space_def cu_def)

lemma trim_enclosed:
  assumes "encloses s inner"
  shows "encloses (trim s) inner"
proof -
  let ?lb = "cu CHR ''{''" and ?rb = "cu CHR ''}''"
  from assms obtain before after where s: "s = before @ ?lb # inner @ ?rb # after"
    and nb: "?lb \<notin> set before" and na: "?rb \<notin> set after"
    unfolding encloses_def by blast
  have 1: "dropWhile is_js_space s = dropWhile is_js_space before @ ?lb # inner @ ?rb # after"
    unfolding s using braces_not_space(1) by (rule dropWhile_append3)
  have "rev (dropWhile is_js_space s)
          = rev after @ ?rb # (rev inner @ ?lb # rev (dropWhile is_js_space before))"
    by (simp add: 1)
  then have "dropWhile is_js_space (rev (dropWhile is_js_space s))
          = dropWhile is_js_space (rev after)
            @ ?rb # (rev inner @ ?lb # rev (dropWhile is_js_space before))"
    using braces_not_space(2) by (simp add: dropWhile_append3)
  then have t: "trim s = dropWhile is_js_space before @ ?lb # inner @ ?rb
                  # rev (dropWhile is_js_space (rev after))"
    by (simp add: trim_def)
  have "?lb \<notin> set (dropWhile is_js_space before)"
    using nb by (auto dest: set_dropWhileD)
  moreover have "?rb \<notin> set (rev (dropWhile is_js_space (rev after)))"
    using na by (auto dest: set_dropWhileD)
  ultimately show ?thesis
    unfolding encloses_def using t by blast
qed

lemma trim_decomposition:
  "\<exists>lead trail. s = lead @ trim s @ trail
      \<and> (\<forall>c \<in> set lead. is_js_space c) \<and> (\<forall>c \<in> set trail. is_js_space c)"
proof -
  let ?lead = "takeWhile is_js_space s"
  let ?rest = "dropWhile is_js_space s"
  let ?trail = "rev (takeWhile is_js_space (rev ?rest))"
  have "?rest = rev (dropWhile is_js_space (rev ?rest)) @ ?trail"
    by (metis rev_append rev_rev_ident takeWhile_dropWhile_id)
  then have "?rest = trim s @ ?trail"
    by (simp add: trim_def)
  then have "s = ?lead @ trim s @ ?trail"
    by (metis takeWhile_dropWhile_id)
  moreover have "\<forall>c \<in> set ?lead. is_js_space c"
    by (auto dest: set_takeWhileD)
  moreover have "\<forall>c \<in> set ?trail. is_js_space c"
    by (auto dest: set_takeWhileD)
  ultimately show ?thesis by blast
qed

lemma untrim_enclosed:
  assumes "encloses (trim s) inner"
  shows "encloses s inner"
proof -
  let ?lb = "cu CHR ''{''" and ?rb = "cu CHR ''}''"
  from assms obtain before after where t: "trim s = before @ ?lb # inner @ ?rb # after"
    and nb: "?lb \<notin> set before" and na: "?rb \<notin> set after"
    unfolding encloses_def by blast
  obtain lead trail where s: "s = lead @ trim s @ trail"
    and l: "\<forall>c \<in> set lead. is_js_space c" and r: "\<forall>c \<in> set trail. is_js_space c"
    using trim_decomposition by blast
  have "s = (lead @ before) @ ?lb # inner @ ?rb # (after @ trail)"
    using s t by simp
  moreover have "?lb \<notin> set (lead @ before)"
    using nb l braces_not_space(1) by auto
  moreover have "?rb \<notin> set (after @ trail)"
    using na r braces_not_space(2) by auto
  ultimately show ?thesis
    unfolding encloses_def by blast
qed

lemma strip_prefix_eq: "strip_prefix p s = Some r \<Longrightarrow> s = p @ r"
  by (induction p s rule: strip_prefix.induct) (auto split: if_splits)

lemma strip_prefix_append_Some:
  "strip_prefix p s = Some r \<Longrightarrow> strip_prefix p (s @ x) = Some (r @ x)"
  by (induction p s rule: strip_prefix.induct) (auto split: if_splits)

lemma strip_prefix_append_None:
  "strip_prefix p s = None \<Longrightarrow> t \<notin> set p \<Longrightarrow> strip_prefix p (s @ t # x) = None"
  by (induction p s rule: strip_prefix.induct) (auto split: if_splits)

lemma strip_prefix_set: "strip_prefix p s = Some r \<Longrightarrow> set r \<subseteq> set s"
  by (drule strip_prefix_eq) auto

lemma set_removeFences: "set (removeFences s) \<subseteq> set s"
proof (induction s rule: removeFences.induct)
  case 1
  then show ?case by simp
next
  case (2 c cs)
  show ?case
  proof (cases "strip_prefix (js ''```json'') (c # cs)")
    case (Some rest)
    then have "set rest \<subseteq> set (c # cs)"
      by (rule strip_prefix_set)
    moreover have "set (removeFences rest) \<subseteq> set rest"
      using 2 Some by blast
    ultimately show ?thesis
      using Some by (auto simp del: strip_prefix.simps)
  next
    case None
    show ?thesis
    proof (cases "strip_prefix (js ''```'') (c # cs)")
      case (Some rest)
      then have "set rest \<subseteq> set (c # cs)"
        by (rule strip_prefix_set)
      moreover have "set (removeFences rest) \<subseteq> set rest"
        using 2 None Some by blast
      ultimately show ?thesis
        using None Some by (auto simp del: strip_prefix.simps)
    next
      case None': None
      have "set (removeFences cs) \<subseteq> set cs"
        using 2 None None' by blast
      then show ?thesis
        using None None' by (auto simp del: strip_prefix.simps)
    qed
  qed
qed

lemma removeFences_split:
  assumes "t \<notin> set (js ''```json'')"
  shows "removeFences (a @ t # b) = removeFences a @ t # removeFences b"
proof (induction a rule: removeFences.induct)
  case 1
  have "strip_prefix (js ''```json'') (t # b) = None" "strip_prefix (js ''```'') (t # b) = None"
    using assms by (auto simp: js_def)
  then show ?case
    by (simp del: strip_prefix.simps)
next
  case (2 c cs)
  have t3: "t \<notin> set (js ''```'')"
    using assms by (auto simp: js_def)
  show ?case
  proof (cases "strip_prefix (js ''```json'') (c # cs)")
    case (Some rest)
    then have "strip_prefix (js ''```json'') ((c # cs) @ t # b) = Some (rest @ t # b)"
      by (rule strip_prefix_append_Some)
    moreover have "removeFences (rest @ t # b) = removeFences rest @ t # removeFences b"
      using 2 Some by blast
    ultimately show ?thesis
      using Some by (simp del: strip_prefix.simps)
  next
    case None
    then have n: "strip_prefix (js ''```json'') ((c # cs) @ t # b) = None"
      using assms by (rule strip_prefix_append_None)
    show ?thesis
    proof (cases "strip_prefix (js ''```'') (c # cs)")
      case (Some rest)
      then have "strip_prefix (js ''```'') ((c # cs) @ t # b) = Some (rest @ t # b)"
        by (rule strip_prefix_append_Some)
      moreover have "removeFences (rest @ t # b) = removeFences rest @ t # removeFences b"
        using 2 None Some by blast
      ultimately show ?thesis
        using None Some n by (simp del: strip_prefix.simps)
    next
      case None': None
      then have "strip_prefix (js ''```'') ((c # cs) @ t # b) = None"
        using t3 by (rule strip_prefix_append_None)
      moreover have "removeFences (cs @ t # b) = removeFences cs @ t # removeFences b"
        using 2 None None' by blast
      ultimately show ?thesis
        using None None' n by (simp del: strip_prefix.simps)
    qed
  qed
qed


lemma jsonString_enclosed:
  assumes "encloses (cleanedText text) inner"
  shows "jsonString text = cu CHR ''{'' # inner @ [cu CHR ''}'']"
  using assms unfolding encloses_def jsonString_def
  by (auto simp: brace_slice_enclosed)

lemma first_split_unique:
  assumes "a @ c # b = a' @ c # b'" and "c \<notin> set a" and "c \<notin> set a'"
  shows "a = a' \<and> b = b'"
proof -
  have "takeWhile (\<lambda>x. x \<noteq> c) (a @ c # b) = takeWhile (\<lambda>x. x \<noteq> c) (a' @ c # b')"
    using assms(1) by simp
  then have "a = a'"
    using assms(2,3) by (simp add: takeWhile_until)
  with assms(1) show ?thesis by simp
qed

lemma last_split_unique:
  assumes "a @ c # b = a' @ c # b'" and "c \<notin> set b" and "c \<notin> set b'"
  shows "a = a' \<and> b = b'"
proof -
  have "rev (a @ c # b) = rev (a' @ c # b')"
    using assms(1) by (rule arg_cong)
  then have "rev b @ c # rev a = rev b' @ c # rev a'"
    by simp
  moreover have "c \<notin> set (rev b)" "c \<notin> set (rev b')"
    using assms(2,3) by simp_all
  ultimately have "rev b = rev b' \<and> rev a = rev a'"
    by (rule first_split_unique)
  then show ?thesis by simp
qed

lemma braces_not_in_fence:
  "cu CHR ''{'' \<notin> set (js ''```json'')" "cu CHR ''}'' \<notin> set (js ''```json'')"
  by (simp_all add: js_def cu_def)

text \<open>
  Fence removal never deletes a brace and never looks across one, so what it leaves
  between the first \<open>{\<close> and the last \<open>}\<close> of a text does not depend on what stands
  in front of that \<open>{\<close> or behind that \<open>}\<close>.
\<close>

lemma removeFences_encloses_surrounded:
  assumes "encloses (removeFences payload) inner"
    and "cu CHR ''{'' \<notin> set before" and "cu CHR ''}'' \<notin> set after"
  shows "encloses (removeFences (before @ payload @ after)) inner"
proof -
  let ?lb = "cu CHR ''{''" and ?rb = "cu CHR ''}''"
  from assms(1) obtain l r where rf: "removeFences payload = l @ ?lb # inner @ ?rb # r"
    and nl: "?lb \<notin> set l" and nr: "?rb \<notin> set r"
    unfolding encloses_def by blast
  have "?lb \<in> set (removeFences payload)"
    by (simp add: rf)
  then have "?lb \<in> set payload"
    using set_removeFences by blast
  then obtain p1 q where p: "payload = p1 @ ?lb # q" and np1: "?lb \<notin> set p1"
    by (meson split_list_first)
  have rp: "removeFences payload = removeFences p1 @ ?lb # removeFences q"
    unfolding p using braces_not_in_fence(1) by (rule removeFences_split)
  have nrp1: "?lb \<notin> set (removeFences p1)"
    using np1 set_removeFences by blast
  from rf rp have "removeFences p1 @ ?lb # removeFences q = l @ ?lb # (inner @ ?rb # r)"
    by simp
  then have "removeFences q = inner @ ?rb # r"
    using nrp1 nl by (rule first_split_unique [THEN conjunct2])
  then have q1: "removeFences q = inner @ ?rb # r" .
  then have "?rb \<in> set (removeFences q)"
    by simp
  then have "?rb \<in> set q"
    using set_removeFences by blast
  then obtain qm p2 where q: "q = qm @ ?rb # p2" and np2: "?rb \<notin> set p2"
    by (meson split_list_last)
  have rq: "removeFences q = removeFences qm @ ?rb # removeFences p2"
    unfolding q using braces_not_in_fence(2) by (rule removeFences_split)
  have nrp2: "?rb \<notin> set (removeFences p2)"
    using np2 set_removeFences by blast
  have "removeFences qm @ ?rb # removeFences p2 = inner @ ?rb # r"
    using q1 rq by simp
  then have "removeFences qm = inner"
    using nrp2 nr by (rule last_split_unique [THEN conjunct1])
  then have i: "inner = removeFences qm"
    by simp
  have "before @ payload @ after = (before @ p1) @ ?lb # (qm @ ?rb # (p2 @ after))"
    by (simp add: p q)
  moreover have "removeFences ((before @ p1) @ ?lb # (qm @ ?rb # (p2 @ after)))
      = removeFences (before @ p1) @ ?lb # removeFences (qm @ ?rb # (p2 @ after))"
    using braces_not_in_fence(1) by (rule removeFences_split)
  moreover have "removeFences (qm @ ?rb # (p2 @ after))
      = removeFences qm @ ?rb # removeFences (p2 @ after)"
    using braces_not_in_fence(2) by (rule removeFences_split)
  ultimately have w: "removeFences (before @ payload @ after)
      = removeFences (before @ p1) @ ?lb # inner @ ?rb # removeFences (p2 @ after)"
    by (simp only: i)
  have "?lb \<notin> set (before @ p1)" "?rb \<notin> set (p2 @ after)"
    using assms(2,3) np1 np2 by simp_all
  then have "?lb \<notin> set (removeFences (before @ p1))"
    "?rb \<notin> set (removeFences (p2 @ after))"
    using set_removeFences by blast+
  with w show ?thesis
    unfolding encloses_def by blast
qed

lemma surrounded_same_jsonString:
  assumes "cu CHR ''{'' \<notin> set before" and "cu CHR ''}'' \<notin> set after"
    and "JSON_parse (jsonString payload) = Some (JObject ps)"
  shows "jsonString (before @ payload @ after) = jsonString payload"
proof -
  have "cu CHR ''{'' \<in> set (brace_slice (cleanedText payload))"
    using assms(3) JSON_parse_object_has_open_brace unfolding jsonString_def by blast
  then obtain inner where c: "encloses (cleanedText payload) inner"
    using brace_slice_has_open_brace by blast
  then have "encloses (removeFences payload) inner"
    unfolding cleanedText_def by (rule untrim_enclosed)
  then have "encloses (removeFences (before @ payload @ after)) inner"
    using assms(1,2) by (rule removeFences_encloses_surrounded)
  then have "encloses (cleanedText (before @ payload @ after)) inner"
    unfolding cleanedText_def by (rule trim_enclosed)
  then show ?thesis
    using c by (simp add: jsonString_enclosed)
qed

text \<open>
  C3, as the code has it. A payload from which the extraction obtains a meal record (a
  JSON object) gives the same record, again without failure, when any text without
  \<open>{\<close> is put in front of it and any text without \<open>}\<close> behind it: fence markers,
  prose, line breaks, as in \<open>Sure! ```json\<newline>{...}\<newline>```\<close>.
\<close>

theorem surrounded_reply_same_meal:
  assumes "cu CHR ''{'' \<notin> set before" and "cu CHR ''}'' \<notin> set after"
    and "fst (parse_reply (JString payload)) = Inr (JObject ps)"
  shows "parse_reply (JString (before @ payload @ after)) = (Inr (JObject ps), [])"
proof -
  from assms(3) have p: "JSON_parse (jsonString payload) = Some (JObject ps)"
    by (auto simp: parse_reply_def split: option.splits)
  with assms(1,2) have "jsonString (before @ payload @ after) = jsonString payload"
    by (rule surrounded_same_jsonString)
  with p show ?thesis
    by (simp add: parse_reply_def)
qed

theorem surrounded_reply_same_meal_witness:
  "fst (parse_reply (JString apple_text)) = Inr apple_meal
   \<and> parse_reply (JString (js ''Sure! ```json\<newline>'' @ apple_text @ js ''\<newline>```''))
     = (Inr apple_meal, [])
   \<and> parse_reply (JString (js ''Here you go: '' @ apple_text @ js '' Enjoy :-)''))
     = (Inr apple_meal, [])"
proof -
  have h1: "cu CHR ''{'' \<notin> set (js ''Sure! ```json\<newline>'')"
    by (simp add: js_def cu_def)
  have h2: "cu CHR ''}'' \<notin> set (js ''\<newline>```'')"
    by (simp add: js_def cu_def)
  have h3: "fst (parse_reply (JString apple_text)) = Inr apple_meal"
    by (simp add: parse_reply_def apple_text_parses)
  have k1: "cu CHR ''{'' \<notin> set (js ''Here you go: '')"
    by (simp add: js_def cu_def)
  have k2: "cu CHR ''}'' \<notin> set (js '' Enjoy :-)'')"
    by (simp add: js_def cu_def)
  from surrounded_reply_same_meal [OF h1 h2 h3 [unfolded apple_meal_def]]
    surrounded_reply_same_meal [OF k1 k2 h3 [unfolded apple_meal_def]] h3
  show ?thesis
    by (simp add: apple_meal_def)
qed

text \<open>
  C3 as the spec states it fails: prose with a brace of its own moves the first \<open>{\<close>,
  and the wrapped payload is no longer parsed.
\<close>

theorem surrounded_reply_counterexample:
  "fst (parse_reply (JString apple_text)) = Inr apple_meal
   \<and> fst (parse_reply
            (JString (js ''Use {braces}: ```json\<newline>'' @ apple_text @ js ''\<newline>```'')))
     = Inl MalformedPayload"
proof -
  have "fst (parse_reply (JString apple_text)) = Inr apple_meal"
    by (simp add: parse_reply_def apple_text_parses)
  moreover have "JSON_parse
      (jsonString (js ''Use {braces}: ```json\<newline>'' @ apple_text @ js ''\<newline>```'')) = None"
    by code_simp
  ultimately show ?thesis
    by (simp add: parse_reply_def)
qed

text \<open>
  C2, as the code has it. For a reply whose text part is a non-empty string: when the text
  without its fence markers has a \<open>{\<close> with a \<open>}\<close> after it, the candidate handed to
  the parser is the substring from its first \<open>{\<close> to its last \<open>}\<close>, both included; when
  the candidate parses, its value is returned; when it does not, the analyzer writes the
  raw text to the console and fails with MalformedPayload, whose own text is fixed.
\<close>

theorem reply_extraction:
  assumes "file_bytes w uri = Some bytes"
    and "default_mimeType m \<in> set supportedMimeTypes"
    and "fetch w (build_request w (default_mimeType m) (base64_encode bytes)) = Some resp"
    and "ok resp"
    and "JSON_parse (body_text resp) = Some data"
    and "reply_text data = Some (JString text)"
    and "text \<noteq> []"
  shows "(encloses (removeFences text) inner
            \<longrightarrow> jsonString text = cu CHR ''{'' # inner @ [cu CHR ''}''])
         \<and> (JSON_parse (jsonString text) = Some meal
            \<longrightarrow> analyzeImageWithGemini w uri m =
                  (Inr meal,
                   [Fetch (build_request w (default_mimeType m) (base64_encode bytes))]))
         \<and> (JSON_parse (jsonString text) = None
            \<longrightarrow> analyzeImageWithGemini w uri m =
                  (Inl MalformedPayload,
                   [Fetch (build_request w (default_mimeType m) (base64_encode bytes)),
                    ConsoleError (js ''Failed to parse JSON from API response:'')
                      (JString text)]))
         \<and> message MalformedPayload =
             Some (js ''Received an invalid format from the AI. Response was not a valid JSON object.'')"
proof (intro conjI impI)
  assume "encloses (removeFences text) inner"
  then have "encloses (cleanedText text) inner"
    unfolding cleanedText_def by (rule trim_enclosed)
  then show "jsonString text = cu CHR ''{'' # inner @ [cu CHR ''}'']"
    by (rule jsonString_enclosed)
next
  assume "JSON_parse (jsonString text) = Some meal"
  then show "analyzeImageWithGemini w uri m =
      (Inr meal, [Fetch (build_request w (default_mimeType m) (base64_encode bytes))])"
    using assms by (simp add: analyze_reaches_response handle_response_def parse_reply_def)
next
  assume "JSON_parse (jsonString text) = None"
  then show "analyzeImageWithGemini w uri m =
      (Inl MalformedPayload,
       [Fetch (build_request w (default_mimeType m) (base64_encode bytes)),
        ConsoleError (js ''Failed to parse JSON from API response:'') (JString text)])"
    using assms by (simp add: analyze_reaches_response handle_response_def parse_reply_def)
next
  show "message MalformedPayload =
      Some (js ''Received an invalid format from the AI. Response was not a valid JSON object.'')"
    by simp
qed

theorem reply_extraction_witness:
  "jsonString fenced_example = js ''{\"a\":1}''
   \<and> analyzeImageWithGemini
       (world_answering (http_response True (js ''OK'') (envelope fenced_example)))
       (js ''file:///meal.jpg'') None
     = (Inr (JObject [(js ''a'', JNumber False 1 0)]),
        [Fetch (build_request
                  (world_answering (http_response True (js ''OK'') (envelope fenced_example)))
                  (js ''image/jpeg'') (base64_encode [0xFF, 0xD8, 0xFF]))])
   \<and> analyzeImageWithGemini
       (world_answering (http_response True (js ''OK'') (envelope (js ''abc''))))
       (js ''file:///meal.jpg'') None
     = (Inl MalformedPayload,
        [Fetch (build_request
                  (world_answering (http_response True (js ''OK'') (envelope (js ''abc''))))
                  (js ''image/jpeg'') (base64_encode [0xFF, 0xD8, 0xFF])),
         ConsoleError (js ''Failed to parse JSON from API response:'') (JString (js ''abc''))])"
proof -
  let ?resp = "http_response True (js ''OK'') (envelope fenced_example)"
  let ?w = "world_answering ?resp"
  have h1: "file_bytes ?w (js ''file:///meal.jpg'') = Some [0xFF, 0xD8, 0xFF]"
    by (simp add: world_answering_def)
  have h2: "default_mimeType None \<in> set supportedMimeTypes"
    by (simp add: default_mimeType_def supportedMimeTypes_def)
  have h3: "fetch ?w (build_request ?w (default_mimeType None)
              (base64_encode [0xFF, 0xD8, 0xFF])) = Some ?resp"
    by (simp add: world_answering_def)
  have h4: "ok ?resp"
    by (simp add: http_response_def)
  have h5: "JSON_parse (body_text ?resp) = Some (envelope_value (JString fenced_example))"
    by code_simp
  have h6: "reply_text (envelope_value (JString fenced_example)) = Some (JString fenced_example)"
    by (rule reply_text_envelope_value)
  have h7: "fenced_example \<noteq> []"
    by (simp add: fenced_example_def js_def)
  have r: "removeFences fenced_example = 0x0A # js ''{\"a\":1}'' @ [0x0A]"
    by code_simp
  have "removeFences fenced_example
          = [0x0A] @ cu CHR ''{'' # js ''\"a\":1'' @ cu CHR ''}'' # [0x0A]"
    by (simp add: r js_def)
  moreover have "cu CHR ''{'' \<notin> set [0x0A :: cu]" "cu CHR ''}'' \<notin> set [0x0A :: cu]"
    by (simp_all add: cu_def)
  ultimately have h8: "encloses (removeFences fenced_example) (js ''\"a\":1'')"
    unfolding encloses_def by blast
  have j: "cu CHR ''{'' # js ''\"a\":1'' @ [cu CHR ''}''] = js ''{\"a\":1}''"
    by (simp add: js_def)
  have h9: "JSON_parse (js ''{\"a\":1}'') = Some (JObject [(js ''a'', JNumber False 1 0)])"
    by code_simp
  let ?resp2 = "http_response True (js ''OK'') (envelope (js ''abc''))"
  let ?w2 = "world_answering ?resp2"
  have k1: "file_bytes ?w2 (js ''file:///meal.jpg'') = Some [0xFF, 0xD8, 0xFF]"
    by (simp add: world_answering_def)
  have k3: "fetch ?w2 (build_request ?w2 (default_mimeType None)
              (base64_encode [0xFF, 0xD8, 0xFF])) = Some ?resp2"
    by (simp add: world_answering_def)
  have k4: "ok ?resp2"
    by (simp add: http_response_def)
  have k5: "JSON_parse (body_text ?resp2) = Some (envelope_value (JString (js ''abc'')))"
    by code_simp
  have k6: "reply_text (envelope_value (JString (js ''abc''))) = Some (JString (js ''abc''))"
    by (rule reply_text_envelope_value)
  have k7: "js ''abc'' \<noteq> []"
    by (simp add: js_def)
  have k8: "JSON_parse (jsonString (js ''abc'')) = None"
    by code_simp
  have d: "default_mimeType None = js ''image/jpeg''"
    by (simp add: default_mimeType_def)
  note a = reply_extraction [OF h1 h2 h3 h4 h5 h6 h7,
      of "js ''\"a\":1''" "JObject [(js ''a'', JNumber False 1 0)]"]
  note b = reply_extraction [OF k1 h2 k3 k4 k5 k6 k7, of "[]" JNull]
  from a h8 j have c: "jsonString fenced_example = js ''{\"a\":1}''"
    by simp
  from a c h9 b k8 d show ?thesis
    by simp
qed

text \<open>
  C2 as the spec states it fails: the failure does not include the raw text. Two
  different raw texts give the same error, and its text is the fixed sentence.
\<close>

theorem reply_extraction_counterexample:
  "fst (analyzeImageWithGemini
          (world_answering (http_response True (js ''OK'') (envelope (js ''abc''))))
          (js ''file:///meal.jpg'') None)
   = Inl MalformedPayload
   \<and> fst (analyzeImageWithGemini
            (world_answering (http_response True (js ''OK'') (envelope (js ''xyz''))))
            (js ''file:///meal.jpg'') None)
     = Inl MalformedPayload
   \<and> message MalformedPayload =
       Some (js ''Received an invalid format from the AI. Response was not a valid JSON object.'')"
proof -
  have "fst (handle_response w (http_response True (js ''OK'') (envelope (js ''abc''))))
          = Inl MalformedPayload" for w
    by code_simp
  moreover have "fst (handle_response w (http_response True (js ''OK'') (envelope (js ''xyz''))))
          = Inl MalformedPayload" for w
    by code_simp
  ultimately show ?thesis
    by (simp add: world_answering_reaches)
qed

lemma set_trim: "set (trim s) \<subseteq> set s"
proof -
  have "set (dropWhile is_js_space (rev (dropWhile is_js_space s)))
          \<subseteq> set (rev (dropWhile is_js_space s))"
    by (auto dest: set_dropWhileD)
  also have "\<dots> \<subseteq> set s"
    by (auto dest: set_dropWhileD)
  finally show ?thesis
    by (simp add: trim_def)
qed

lemma JSON_parse_empty: "JSON_parse [] = None"
  by (simp add: JSON_parse_def skip_ws_def)

text \<open>A reply with neither brace leaves the parser the empty text, and fails.\<close>

lemma braceless_reply_fails:
  assumes "cu CHR ''{'' \<notin> set text" and "cu CHR ''}'' \<notin> set text"
  shows "parse_reply (JString text) =
           (Inl MalformedPayload,
            [ConsoleError (js ''Failed to parse JSON from API response:'') (JString text)])"
proof -
  have c: "set (cleanedText text) \<subseteq> set text"
    using set_trim [of "removeFences text"] set_removeFences [of "text"]
    by (auto simp: cleanedText_def)
  with assms have "indexOf (cleanedText text) (cu CHR ''{'') = - 1"
    "lastIndexOf (cleanedText text) (cu CHR ''}'') = - 1"
    by (auto simp: indexOf_def lastIndexOf_def)
  then have "jsonString text = []"
    by (simp add: jsonString_def brace_slice_def substring_def Let_def)
  then show ?thesis
    by (simp add: parse_reply_def JSON_parse_empty)
qed

text \<open>
  C8 fails on the code. The reply \<open>5 {\<close> has no pair of braces: \<open>indexOf\<close> gives 2,
  \<open>lastIndexOf\<close> gives -1, and \<open>substring(2, 0)\<close> swaps its arguments, so the candidate is
  the text before the brace, which is JSON. The analyzer returns the number 5.
\<close>

theorem lone_brace_reply_returned:
  "jsonString (js ''5 {'') = js ''5 ''
   \<and> fst (analyzeImageWithGemini
            (world_answering (http_response True (js ''OK'') (envelope (js ''5 {''))))
            (js ''file:///meal.jpg'') None)
     = Inr (JNumber False 5 0)"
proof -
  have "jsonString (js ''5 {'') = js ''5 ''"
    by code_simp
  moreover have "fst (handle_response w (http_response True (js ''OK'') (envelope (js ''5 {''))))
          = Inr (JNumber False 5 0)" for w
    by code_simp
  ultimately show ?thesis
    by (simp add: world_answering_reaches)
qed

subsection \<open>The wire encoding\<close>


lemma index_in_nth: "distinct xs \<Longrightarrow> n < length xs \<Longrightarrow> index_in xs (xs ! n) = Some n"
proof (induction xs arbitrary: n)
  case Nil
  then show ?case by simp
next
  case (Cons x xs)
  show ?case
  proof (cases n)
    case 0
    then show ?thesis by simp
  next
    case (Suc k)
    with Cons.prems have "xs ! k \<in> set xs" "x \<notin> set xs" "k < length xs"
      by auto
    then have "x \<noteq> xs ! k" by auto
    with Suc Cons show ?thesis by simp
  qed
qed

lemma base64_alphabet_length: "length base64_alphabet = 64"
  by (simp add: base64_alphabet_def js_def)

lemma base64_alphabet_distinct: "distinct base64_alphabet"
  by (simp add: base64_alphabet_def js_def cu_def)

lemma pad_not_in_alphabet: "cu CHR ''='' \<notin> set base64_alphabet"
  by (simp add: base64_alphabet_def js_def cu_def)

lemma b64_index_char: "n < 64 \<Longrightarrow> b64_index (b64_char n) = Some n"
  by (simp add: b64_index_def b64_char_def index_in_nth base64_alphabet_distinct
        base64_alphabet_length)

lemma b64_char_not_pad:
  assumes "n < 64"
  shows "b64_char n \<noteq> cu CHR ''=''"
proof -
  have "base64_alphabet ! n \<in> set base64_alphabet"
    using assms by (simp add: base64_alphabet_length)
  then show ?thesis
    using pad_not_in_alphabet unfolding b64_char_def by metis
qed

lemma sextet_bounds:
  fixes a b c :: nat
  assumes "a < 256" "b < 256" "c < 256"
  shows "a div 4 < 64" "a mod 4 * 16 < 64" "a mod 4 * 16 + b div 16 < 64" "b mod 16 * 4 < 64"
    "b mod 16 * 4 + c div 64 < 64" "c mod 64 < 64"
  using assms by simp_all

lemma first_octet_back:
  fixes a b :: nat
  assumes "b < 256"
  shows "a div 4 * 4 + (a mod 4 * 16 + b div 16) div 16 = a"
  using assms by simp

lemma second_octet_back:
  fixes a b c :: nat
  assumes "b < 256" and "c < 256"
  shows "(a mod 4 * 16 + b div 16) mod 16 * 16 + (b mod 16 * 4 + c div 64) div 4 = b"
proof -
  have "b div 16 < 16" using assms by simp
  then have 1: "b div 16 mod 16 = b div 16" by (rule mod_less)
  have "c div 64 < 4" using assms by simp
  then have 2: "(b mod 16 * 4 + c div 64) div 4 = b mod 16"
    by simp
  show ?thesis by (simp add: 1 2)
qed

lemma third_octet_back:
  fixes b c :: nat
  assumes "c < 256"
  shows "(b mod 16 * 4 + c div 64) mod 4 * 64 + c mod 64 = c"
proof -
  have "c div 64 < 4" using assms by simp
  then have 1: "c div 64 mod 4 = c div 64" by (rule mod_less)
  show ?thesis by (simp add: 1)
qed

lemma unat_byte: "unat (a :: byte) < 256"
  using unsigned_less [of a, where 'a = nat] by simp

lemma byte_of_unat: "of_nat (unat a) = (a :: byte)"
  by simp

lemma decode_group:
  assumes "i1 < 64" "i2 < 64" "i3 < 64" "i4 < 64"
  shows "base64_decode (b64_char i1 # b64_char i2 # b64_char i3 # b64_char i4 # rest) =
           map_option
             (\<lambda>bs. of_nat (i1 * 4 + i2 div 16) # of_nat (i2 mod 16 * 16 + i3 div 4)
                     # of_nat (i3 mod 4 * 64 + i4) # bs)
             (base64_decode rest)"
  using assms by (simp add: b64_index_char b64_char_not_pad)

lemma decode_last_two:
  assumes "i1 < 64" "i2 < 64" "i3 < 64"
  shows "base64_decode [b64_char i1, b64_char i2, b64_char i3, cu CHR ''=''] =
           Some [of_nat (i1 * 4 + i2 div 16), of_nat (i2 mod 16 * 16 + i3 div 4)]"
  using assms by (simp add: b64_index_char b64_char_not_pad)

lemma decode_last_one:
  assumes "i1 < 64" "i2 < 64"
  shows "base64_decode [b64_char i1, b64_char i2, cu CHR ''='', cu CHR ''=''] =
           Some [of_nat (i1 * 4 + i2 div 16)]"
  using assms by (simp add: b64_index_char)

text \<open>
  C9. Encoding any byte sequence to the base64 text and decoding that text gives back the
  byte sequence.
\<close>

theorem base64_round_trip: "base64_decode (base64_encode bytes) = Some bytes"
proof (induction bytes rule: base64_encode.induct)
  case 1
  show ?case by simp
next
  case (2 a)
  note A = unat_byte [of a]
  have "base64_decode (base64_encode [a]) =
      Some [of_nat (unat a div 4 * 4 + (unat a mod 4 * 16 + 0 div 16) div 16)]"
    using sextet_bounds(1,2) [OF A A A] by (simp add: decode_last_one del: base64_decode.simps)
  also have "unat a div 4 * 4 + (unat a mod 4 * 16 + 0 div 16) div 16 = unat a"
    by (rule first_octet_back) simp
  finally show ?case by (simp only: byte_of_unat)
next
  case (3 a b)
  note A = unat_byte [of a] and B = unat_byte [of b]
  have "base64_decode (base64_encode [a, b]) =
      Some [of_nat (unat a div 4 * 4 + (unat a mod 4 * 16 + unat b div 16) div 16),
            of_nat ((unat a mod 4 * 16 + unat b div 16) mod 16 * 16
                    + (unat b mod 16 * 4 + 0 div 64) div 4)]"
    using sextet_bounds(1,3,4) [OF A B B] by (simp add: decode_last_two del: base64_decode.simps of_nat_add of_nat_mult)
  also have "unat a div 4 * 4 + (unat a mod 4 * 16 + unat b div 16) div 16 = unat a"
    using B by (rule first_octet_back)
  also have "(unat a mod 4 * 16 + unat b div 16) mod 16 * 16
               + (unat b mod 16 * 4 + 0 div 64) div 4 = unat b"
    using B by (rule second_octet_back) simp
  finally show ?case by (simp only: byte_of_unat)
next
  case (4 a b c rest)
  note A = unat_byte [of a] and B = unat_byte [of b] and C = unat_byte [of c]
  have "base64_decode (base64_encode (a # b # c # rest)) =
      Some (of_nat (unat a div 4 * 4 + (unat a mod 4 * 16 + unat b div 16) div 16)
            # of_nat ((unat a mod 4 * 16 + unat b div 16) mod 16 * 16
                      + (unat b mod 16 * 4 + unat c div 64) div 4)
            # of_nat ((unat b mod 16 * 4 + unat c div 64) mod 4 * 64 + unat c mod 64)
            # rest)"
    using sextet_bounds(1,3,5,6) [OF A B C] 4
    by (simp add: decode_group del: base64_decode.simps of_nat_add of_nat_mult)
  also have "unat a div 4 * 4 + (unat a mod 4 * 16 + unat b div 16) div 16 = unat a"
    using B by (rule first_octet_back)
  also have "(unat a mod 4 * 16 + unat b div 16) mod 16 * 16
               + (unat b mod 16 * 4 + unat c div 64) div 4 = unat b"
    using B C by (rule second_octet_back)
  also have "(unat b mod 16 * 4 + unat c div 64) mod 4 * 64 + unat c mod 64 = unat c"
    using C by (rule third_octet_back)
  finally show ?case by (simp only: byte_of_unat)
qed

end
